theory Spec2Isabelle
  imports Complex_Main
begin

section \<open>Exceptions\<close>

text \<open>
  The Python exceptions that the modelled functions raise or catch.
  \<^item> \<open>ValueError s\<close>: raised by \<open>int(s)\<close> on a literal it rejects, and by the session
    identifier check.
  \<^item> \<open>ValidationError\<close>: raised by a pydantic constructor whose field constraints fail.
  \<^item> \<open>HTTPException status text inner\<close>: the exception of the web framework; the detail
    message is \<open>text\<close> followed by \<open>str(inner)\<close> when the handler embeds a caught exception.
\<close>

datatype exn =
    ValueError string
  | ValidationError
  | HTTPException nat string "exn option"

section \<open>Schemas (\<open>app/schemas/validation.py\<close>)\<close>

text \<open>
  Python integers are modelled as \<open>int\<close>. A Python float is modelled as the real number it
  denotes; the arithmetic on floats is defined in the section on binary floats below. A
  \<open>datetime\<close> is modelled as a number of seconds. The field \<open>notes\<close> of a box is named
  \<open>box_notes\<close>.
\<close>

record GroundTruthBox =
  x1 :: real
  y1 :: real
  x2 :: real
  y2 :: real
  confidence :: real
  label :: string
  class_id :: int
  box_id :: "string option"
  is_verified :: bool
  is_correct :: bool
  is_manual :: bool
  verified_at :: "nat option"
  box_notes :: "string option"

text \<open>
  \<open>BoxValidation\<close>: one correction of a batch. Its fields are prefixed with \<open>v_\<close> where the
  name is already a field of \<open>GroundTruthBox\<close>.
\<close>

record BoxValidation =
  v_box_id :: string
  v_is_correct :: bool
  confidence_override :: "real option"
  v_notes :: "string option"

record TrueMetrics =
  true_positives :: int
  false_positives :: int
  false_negatives :: int
  total_verified :: int
  precision :: real
  recall :: real
  f1_score :: real
  false_positive_rate :: real
  yolo_avg_confidence :: real
  yolo_box_count :: int
  yolo_fps :: real

text \<open>The validator \<open>check_valid_metric\<close> of \<open>TrueMetrics\<close>.\<close>

definition check_valid_metric :: "real \<Rightarrow> real" where
  "check_valid_metric v = (if v < 0 \<or> v > 1 then 0 else v)"

text \<open>
  The constructor \<open>TrueMetrics(...)\<close>: the \<open>Field(ge=..., le=...)\<close> constraints are checked
  first and raise \<open>ValidationError\<close>; the class validator runs on the three rates afterwards.
\<close>

definition TrueMetrics_init ::
  "int \<Rightarrow> int \<Rightarrow> int \<Rightarrow> int \<Rightarrow> real \<Rightarrow> real \<Rightarrow> real \<Rightarrow> real \<Rightarrow> real \<Rightarrow> int \<Rightarrow> real
     \<Rightarrow> exn + TrueMetrics" where
  "TrueMetrics_init tp fp fn tv p r f fpr yac ybc yfps =
     (if 0 \<le> tp \<and> 0 \<le> fp \<and> 0 \<le> fn \<and> 0 \<le> tv
         \<and> 0 \<le> p \<and> p \<le> 1 \<and> 0 \<le> r \<and> r \<le> 1 \<and> 0 \<le> f \<and> f \<le> 1
         \<and> 0 \<le> fpr \<and> fpr \<le> 100
         \<and> 0 \<le> yac \<and> yac \<le> 1 \<and> 0 \<le> ybc \<and> 0 \<le> yfps
      then Inr \<lparr> true_positives = tp, false_positives = fp, false_negatives = fn,
                 total_verified = tv,
                 precision = check_valid_metric p, recall = check_valid_metric r,
                 f1_score = check_valid_metric f, false_positive_rate = fpr,
                 yolo_avg_confidence = yac, yolo_box_count = ybc, yolo_fps = yfps \<rparr>
      else Inl ValidationError)"

section \<open>True metrics (\<open>app/utils/true_metrics.py\<close>)\<close>

text \<open>
  The dictionary \<open>yolo_metrics\<close>, restricted to the three keys that
  \<open>calculate_true_metrics\<close> reads with \<open>.get\<close>; \<open>None\<close> is an absent key.
\<close>

record yolo_dict =
  avg_confidence :: "real option"
  box_count :: "int option"
  fps :: "real option"

text \<open>The empty dictionary \<open>{}\<close>.\<close>

definition empty_dict :: yolo_dict where
  "empty_dict = \<lparr> avg_confidence = None, box_count = None, fps = None \<rparr>"

text \<open>\<open>d.get(key, default)\<close>.\<close>

definition dict_get :: "'a option \<Rightarrow> 'a \<Rightarrow> 'a" where
  "dict_get entry dflt = (case entry of None \<Rightarrow> dflt | Some v \<Rightarrow> v)"

subsection \<open>Binary floats\<close>

text \<open>
  A Python float is an IEEE 754 binary64 number. Every operation on floats returns the
  binary64 number nearest to the exact result, a tie going to the even significand.
  Overflow is not modelled: no float computed here exceeds 100.
\<close>

text \<open>The largest \<open>k\<close> with \<open>2 ^ k \<le> n\<close>, for \<open>n > 0\<close>.\<close>

fun floor_log2 :: "nat \<Rightarrow> nat" where
  "floor_log2 n = (if n < 2 then 0 else Suc (floor_log2 (n div 2)))"

declare floor_log2.simps [simp del]

text \<open>The binary exponent \<open>e\<close> of a positive number: \<open>2 ^ e \<le> x < 2 ^ (e + 1)\<close>.\<close>

definition float_exponent :: "real \<Rightarrow> int" where
  "float_exponent x =
     (if 1 \<le> x then int (floor_log2 (nat \<lfloor>x\<rfloor>))
      else - int (Suc (floor_log2 (nat \<lceil>1 / x\<rceil> - 1))))"

text \<open>Rounding to the nearest integer, a tie going to the even one.\<close>

definition round_half_even :: "real \<Rightarrow> int" where
  "round_half_even y =
     (let f = \<lfloor>y\<rfloor>; d = y - of_int f
      in if d < 1 / 2 then f
         else if 1 / 2 < d then f + 1
         else if even f then f else f + 1)"

text \<open>
  The exponent of the last place of the binary64 numbers next to \<open>x\<close>: 53 significant
  bits, and the spacing \<open>2 ^ -1074\<close> of the subnormal numbers below \<open>2 ^ -1022\<close>.
\<close>

definition quantum_exponent :: "real \<Rightarrow> int" where
  "quantum_exponent x = max (float_exponent x) (- 1022) - 52"

definition nearest_double :: "real \<Rightarrow> real" where
  "nearest_double x =
     (let q = quantum_exponent x
      in of_int (round_half_even (x / power_int 2 q)) * power_int 2 q)"

definition to_double :: "real \<Rightarrow> real" where
  "to_double x =
     (if x = 0 then 0 else if x < 0 then - nearest_double (- x) else nearest_double x)"

text \<open>\<open>a / b\<close> on two integers, and \<open>x * y\<close>, \<open>x + y\<close>, \<open>x / y\<close> on floats.\<close>

definition int_truediv :: "int \<Rightarrow> int \<Rightarrow> real" where
  "int_truediv a b = to_double (real_of_int a / real_of_int b)"

definition float_mul :: "real \<Rightarrow> real \<Rightarrow> real" where
  "float_mul x y = to_double (x * y)"

definition float_add :: "real \<Rightarrow> real \<Rightarrow> real" where
  "float_add x y = to_double (x + y)"

definition float_div :: "real \<Rightarrow> real \<Rightarrow> real" where
  "float_div x y = to_double (x / y)"

text \<open>
  Python's \<open>round(x, ndigits)\<close> on a float: the exact value of \<open>x\<close> is rounded to
  \<open>ndigits\<close> decimals, a tie going to the even digit, and the decimal is converted back to
  the nearest float.
\<close>

definition py_round :: "real \<Rightarrow> nat \<Rightarrow> real" where
  "py_round x ndigits = to_double (of_int (round_half_even (x * 10 ^ ndigits)) / 10 ^ ndigits)"

subsection \<open>\<open>calculate_true_metrics\<close>\<close>

text \<open>\<open>sum(1 for b in bs if cond(b))\<close>.\<close>

definition count_if :: "('a \<Rightarrow> bool) \<Rightarrow> 'a list \<Rightarrow> int" where
  "count_if cond bs = int (length (filter cond bs))"

definition is_false_positive :: "GroundTruthBox \<Rightarrow> bool" where
  "is_false_positive b = (\<not> is_correct b \<and> \<not> is_manual b)"

definition is_false_negative :: "GroundTruthBox \<Rightarrow> bool" where
  "is_false_negative b = (is_manual b \<and> \<not> is_verified b)"

definition calculate_true_metrics :: "GroundTruthBox list \<Rightarrow> yolo_dict \<Rightarrow> exn + TrueMetrics" where
  "calculate_true_metrics bs ym =
     (let verified_boxes = filter is_verified bs
      in if verified_boxes = [] then
           TrueMetrics_init 0 0 0 0 0 0 0 0
             (dict_get (avg_confidence ym) 0) (dict_get (box_count ym) 0) (dict_get (fps ym) 0)
         else
           let tp = count_if is_correct verified_boxes;
               fp = count_if is_false_positive verified_boxes;
               fn = count_if is_false_negative bs;
               tv = int (length verified_boxes);
               p = (if tp + fp > 0 then int_truediv tp (tp + fp) else 0);
               r = (if tp + fn > 0 then int_truediv tp (tp + fn)
                    else if tp = 0 then 0 else 1);
               f = (if float_add p r > 0
                    then float_div (float_mul 2 (float_mul p r)) (float_add p r) else 0);
               fp_rate = (if tv > 0 then float_mul (int_truediv fp tv) 100 else 0)
           in TrueMetrics_init tp fp fn tv
                (py_round p 3) (py_round r 3) (py_round f 3) (py_round fp_rate 1)
                (dict_get (avg_confidence ym) 0) (dict_get (box_count ym) 0)
                (dict_get (fps ym) 0))"
subsection \<open>The rate formulas and the constraint on the detector metrics\<close>

text \<open>
  The four rate expressions of \<open>calculate_true_metrics\<close>, named so that the results can be
  stated, and the \<open>TrueMetrics\<close> constraints on the three values read from \<open>yolo_metrics\<close>.
\<close>

definition precision_of :: "int \<Rightarrow> int \<Rightarrow> real" where
  "precision_of tp fp = (if tp + fp > 0 then int_truediv tp (tp + fp) else 0)"

definition recall_of :: "int \<Rightarrow> int \<Rightarrow> real" where
  "recall_of tp fn = (if tp + fn > 0 then int_truediv tp (tp + fn)
                    else if tp = 0 then 0 else 1)"

definition f1_of :: "real \<Rightarrow> real \<Rightarrow> real" where
  "f1_of p r = (if float_add p r > 0
                then float_div (float_mul 2 (float_mul p r)) (float_add p r) else 0)"

definition fp_rate_of :: "int \<Rightarrow> int \<Rightarrow> real" where
  "fp_rate_of fp tv = (if tv > 0 then float_mul (int_truediv fp tv) 100 else 0)"

definition yolo_ok :: "yolo_dict \<Rightarrow> bool" where
  "yolo_ok ym = (0 \<le> dict_get (avg_confidence ym) 0 \<and> dict_get (avg_confidence ym) 0 \<le> 1
     \<and> 0 \<le> dict_get (box_count ym) 0 \<and> 0 \<le> dict_get (fps ym) 0)"


subsection \<open>Example inputs\<close>

definition example_box :: "string \<Rightarrow> bool \<Rightarrow> bool \<Rightarrow> bool \<Rightarrow> GroundTruthBox" where
  "example_box bid verified correct manual =
     \<lparr> x1 = 10, y1 = 20, x2 = 110, y2 = 220, confidence = 7 / 8, label = ''person'',
       class_id = 0, box_id = Some bid, is_verified = verified, is_correct = correct,
       is_manual = manual, verified_at = None, box_notes = None \<rparr>"

definition example_yolo :: yolo_dict where
  "example_yolo = \<lparr> avg_confidence = Some (3 / 4), box_count = Some 3, fps = Some 12 \<rparr>"

definition example_boxes :: "GroundTruthBox list" where
  "example_boxes =
     [example_box ''a_box_0'' True True False,
      example_box ''a_box_1'' True False False,
      example_box ''a_box_2'' False True False,
      example_box ''b_box_0'' True True True,
      example_box ''b_box_1'' False True True]"

definition zero_metrics :: TrueMetrics where
  "zero_metrics = \<lparr> true_positives = 0, false_positives = 0, false_negatives = 0,
                 total_verified = 0, precision = 0, recall = 0, f1_score = 0,
                 false_positive_rate = 0, yolo_avg_confidence = 0, yolo_box_count = 0,
                 yolo_fps = 0 \<rparr>"


section \<open>Box identifiers\<close>

text \<open>
  Strings are lists of 8-bit characters. The helpers below model the string operations of
  Python that the routers use on box identifiers: \<open>sep in s\<close>, \<open>s.rsplit(sep, 1)\<close>,
  \<open>int(s)\<close> and the decimal \<open>str\<close> of an integer inside an f-string. They are used with the
  non-empty separator \<open>'_box_'\<close> only.
\<close>

fun starts_with :: "string \<Rightarrow> string \<Rightarrow> bool" where
  "starts_with s [] = True"
| "starts_with [] (p # ps) = False"
| "starts_with (c # cs) (p # ps) = (c = p \<and> starts_with cs ps)"

text \<open>\<open>sep in s\<close>: some suffix of \<open>s\<close> starts with \<open>sep\<close>.\<close>

fun py_in :: "string \<Rightarrow> string \<Rightarrow> bool" where
  "py_in sep [] = starts_with [] sep"
| "py_in sep (c # cs) = (starts_with (c # cs) sep \<or> py_in sep cs)"

text \<open>
  The split of \<open>s\<close> at the rightmost occurrence of \<open>sep\<close>: an occurrence further right in
  the rest of the string wins over one that starts here.
\<close>

fun rsplit_last :: "string \<Rightarrow> string \<Rightarrow> (string \<times> string) option" where
  "rsplit_last sep [] = (if starts_with [] sep then Some ([], []) else None)"
| "rsplit_last sep (c # cs) =
     (case rsplit_last sep cs of
        Some (a, b) \<Rightarrow> Some (c # a, b)
      | None \<Rightarrow> if starts_with (c # cs) sep then Some ([], drop (length sep) (c # cs))
                else None)"

text \<open>\<open>s.rsplit(sep, 1)\<close>: one element when \<open>sep\<close> does not occur, two otherwise.\<close>

definition py_rsplit1 :: "string \<Rightarrow> string \<Rightarrow> string list" where
  "py_rsplit1 s sep = (case rsplit_last sep s of None \<Rightarrow> [s] | Some (a, b) \<Rightarrow> [a, b])"

text \<open>
  \<open>int(s)\<close> on a string: surrounding whitespace is stripped, one sign is allowed, and the
  digits may be grouped by single underscores between digits. Among 8-bit characters the
  whitespace that \<open>int\<close> strips is \<open>\t \n \v \f \r\<close>, the space, \<open>0x85\<close> and \<open>0xa0\<close> (the
  separators \<open>0x1c\<close> to \<open>0x1f\<close> are not), and the only decimal digits are \<open>0\<close> to \<open>9\<close>.
  Anything else raises \<open>ValueError\<close>.
\<close>

definition int_isspace :: "char \<Rightarrow> bool" where
  "int_isspace c = ((of_char c :: nat) \<in> set [9, 10, 11, 12, 13, 32, 133, 160])"

definition int_strip :: "string \<Rightarrow> string" where
  "int_strip s = rev (dropWhile int_isspace (rev (dropWhile int_isspace s)))"

definition is_digit :: "char \<Rightarrow> bool" where
  "is_digit c = (48 \<le> (of_char c :: nat) \<and> (of_char c :: nat) \<le> 57)"

definition digit_value :: "char \<Rightarrow> nat" where
  "digit_value c = of_char c - 48"

fun int_digits :: "nat \<Rightarrow> string \<Rightarrow> nat option" where
  "int_digits acc [] = Some acc"
| "int_digits acc (c # cs) =
     (if is_digit c then int_digits (10 * acc + digit_value c) cs
      else if c = CHR ''_'' then
        (case cs of
           [] \<Rightarrow> None
         | d # ds \<Rightarrow> if is_digit d then int_digits (10 * acc + digit_value d) ds else None)
      else None)"

definition int_literal :: "string \<Rightarrow> nat option" where
  "int_literal s =
     (case s of [] \<Rightarrow> None
      | c # cs \<Rightarrow> if is_digit c then int_digits (digit_value c) cs else None)"

definition signed_literal :: "string \<Rightarrow> int option" where
  "signed_literal t =
     (case t of [] \<Rightarrow> None
      | c # cs \<Rightarrow>
          if c = CHR ''-'' then map_option (\<lambda>n. - int n) (int_literal cs)
          else if c = CHR ''+'' then map_option int (int_literal cs)
          else map_option int (int_literal t))"

definition py_int :: "string \<Rightarrow> exn + int" where
  "py_int s = (case signed_literal (int_strip s) of None \<Rightarrow> Inl (ValueError s) | Some i \<Rightarrow> Inr i)"

text \<open>\<open>str(i)\<close>, as an f-string formats an integer.\<close>

definition digit_char :: "nat \<Rightarrow> char" where
  "digit_char d = char_of (48 + d)"

fun str_nat :: "nat \<Rightarrow> string" where
  "str_nat n = (if n < 10 then [digit_char n] else str_nat (n div 10) @ [digit_char (n mod 10)])"

declare str_nat.simps [simp del]

definition py_str :: "int \<Rightarrow> string" where
  "py_str i = (if i < 0 then CHR ''-'' # str_nat (nat (- i)) else str_nat (nat i))"

text \<open>\<open>f"{image_id}_box_{idx}"\<close>, in \<open>run_inference\<close> and \<open>add_manual_box\<close>.\<close>

definition format_box_id :: "string \<Rightarrow> int \<Rightarrow> string" where
  "format_box_id iid idx = iid @ ''_box_'' @ py_str idx"

text \<open>
  The parse at the head of the loop body of \<open>validate_detections\<close>: nothing is parsed when
  the separator is absent (\<open>Inr None\<close>); otherwise the identifier is split at the last
  separator and \<open>int\<close> is applied to the trailing segment, which may raise.
\<close>

definition parse_box_id :: "string \<Rightarrow> exn + (string \<times> int) option" where
  "parse_box_id bid =
     (if py_in ''_box_'' bid then
        (let image_id_from_box = py_rsplit1 bid ''_box_'' ! 0
         in case py_int (py_rsplit1 bid ''_box_'' ! 1) of
              Inl e \<Rightarrow> Inl e
            | Inr box_index \<Rightarrow> Inr (Some (image_id_from_box, box_index)))
      else Inr None)"

section \<open>The session document and its store\<close>

text \<open>
  One JSON document per session identifier, as \<open>run_inference\<close> writes it. Every key the
  routers index is present, and a stored box dictionary has the fields of \<open>GroundTruthBox\<close>
  with values of their types; whether it satisfies the constraints of the schema is checked
  when a \<open>GroundTruthBox\<close> is constructed from it. \<open>None\<close> for \<open>yolo_metrics\<close> or
  \<open>true_metrics\<close> is an absent key.
\<close>

record ImageRecord =
  image_id :: string
  timestamp :: string
  boxes :: "GroundTruthBox list"
  yolo_metrics :: "yolo_dict option"

record Session =
  session_id :: string
  images :: "ImageRecord list"
  true_metrics :: "TrueMetrics option"

subsection \<open>Constructing a \<open>GroundTruthBox\<close> from a stored dictionary\<close>

text \<open>
  \<open>str.isspace\<close> on 8-bit characters, as used by \<open>str.strip\<close> and by \<open>\s\<close> in a regular
  expression; it includes the separators \<open>0x1c\<close> to \<open>0x1f\<close>.
\<close>

definition str_isspace :: "char \<Rightarrow> bool" where
  "str_isspace c =
     ((of_char c :: nat) \<in> set [9, 10, 11, 12, 13, 28, 29, 30, 31, 32, 133, 160])"

definition str_strip :: "string \<Rightarrow> string" where
  "str_strip s = rev (dropWhile str_isspace (rev (dropWhile str_isspace s)))"

definition is_ascii_alnum :: "char \<Rightarrow> bool" where
  "is_ascii_alnum c =
     (let n = (of_char c :: nat)
      in (48 \<le> n \<and> n \<le> 57) \<or> (65 \<le> n \<and> n \<le> 90) \<or> (97 \<le> n \<and> n \<le> 122))"

text \<open>The character class \<open>[a-zA-Z0-9\s_-]\<close>.\<close>

definition label_char :: "char \<Rightarrow> bool" where
  "label_char c = (is_ascii_alnum c \<or> str_isspace c \<or> c = CHR ''_'' \<or> c = CHR ''-'')"

text \<open>The validator \<open>sanitize_label\<close>: the label matches \<open>^[a-zA-Z0-9\s_-]+$\<close> or is refused.\<close>

definition sanitize_label :: "string \<Rightarrow> exn + string" where
  "sanitize_label v =
     (if v \<noteq> [] \<and> list_all label_char v then Inr (str_strip v)
      else Inl (ValueError ''Label contains invalid characters''))"

text \<open>\<open>max_length\<close> on an optional string.\<close>

definition max_length_ok :: "nat \<Rightarrow> string option \<Rightarrow> bool" where
  "max_length_ok n s = (case s of None \<Rightarrow> True | Some t \<Rightarrow> length t \<le> n)"

text \<open>
  \<open>GroundTruthBox(**box_dict)\<close>: the field constraints first, then the label validator; any
  failure is a \<open>ValidationError\<close>. The object carries the stripped label.
\<close>

definition GroundTruthBox_init :: "GroundTruthBox \<Rightarrow> exn + GroundTruthBox" where
  "GroundTruthBox_init box_dict =
     (if 0 \<le> confidence box_dict \<and> confidence box_dict \<le> 1
         \<and> length (label box_dict) \<le> 50
         \<and> max_length_ok 200 (box_id box_dict)
         \<and> max_length_ok 500 (box_notes box_dict)
      then (case sanitize_label (label box_dict) of
              Inl e \<Rightarrow> Inl ValidationError
            | Inr v \<Rightarrow> Inr (box_dict\<lparr> label := v \<rparr>))
      else Inl ValidationError)"

text \<open>The loops that build \<open>all_boxes\<close>: the first dictionary that is refused raises.\<close>

fun parse_boxes :: "GroundTruthBox list \<Rightarrow> exn + GroundTruthBox list" where
  "parse_boxes [] = Inr []"
| "parse_boxes (box_dict # rest) =
     (case GroundTruthBox_init box_dict of
        Inl e \<Rightarrow> Inl e
      | Inr b \<Rightarrow> (case parse_boxes rest of Inl e \<Rightarrow> Inl e | Inr bs \<Rightarrow> Inr (b # bs)))"

text \<open>The directory of validation files: the document stored under each session identifier.\<close>

type_synonym store = "string \<rightharpoonup> Session"

section \<open>The validation router (\<open>app/routers/validation.py\<close>)\<close>

text \<open>
  The helper \<open>validate_session_id\<close> of \<open>app.middleware.security\<close> is a parameter \<open>vsid\<close> of
  every endpoint: it returns the identifier to use or raises \<open>ValueError\<close>.
\<close>

subsection \<open>\<open>validate_detections\<close>\<close>

text \<open>\<open>if validation.notes:\<close> holds for a string that is present and not empty.\<close>

definition truthy :: "string option \<Rightarrow> bool" where
  "truthy s = (case s of None \<Rightarrow> False | Some t \<Rightarrow> t \<noteq> [])"

text \<open>The assignments made to the matching box dictionary.\<close>

definition apply_validation :: "BoxValidation \<Rightarrow> GroundTruthBox \<Rightarrow> GroundTruthBox" where
  "apply_validation v b =
     b\<lparr> is_verified := True,
        is_correct := v_is_correct v,
        confidence := (case confidence_override v of None \<Rightarrow> confidence b | Some c \<Rightarrow> c),
        box_notes := (if truthy (v_notes v) then v_notes v else box_notes b) \<rparr>"

text \<open>The inner loop: the first box with the exact identifier is updated, then \<open>break\<close>.\<close>

fun update_boxes :: "BoxValidation \<Rightarrow> GroundTruthBox list \<Rightarrow> GroundTruthBox list" where
  "update_boxes v [] = []"
| "update_boxes v (b # bs) =
     (if box_id b = Some (v_box_id v) then apply_validation v b # bs
      else b # update_boxes v bs)"

text \<open>The outer loop: only the first image with the parsed identifier is searched.\<close>

fun update_images :: "string \<Rightarrow> BoxValidation \<Rightarrow> ImageRecord list \<Rightarrow> ImageRecord list" where
  "update_images iid v [] = []"
| "update_images iid v (img # imgs) =
     (if image_id img = iid then img\<lparr> boxes := update_boxes v (boxes img) \<rparr> # imgs
      else img # update_images iid v imgs)"

text \<open>The body of the loop over the batch, inside its \<open>try\<close>.\<close>

definition validate_one :: "BoxValidation \<Rightarrow> ImageRecord list \<Rightarrow> exn + ImageRecord list" where
  "validate_one v imgs =
     (case parse_box_id (v_box_id v) of
        Inl e \<Rightarrow> Inl e
      | Inr None \<Rightarrow> Inr imgs
      | Inr (Some (image_id_from_box, box_index)) \<Rightarrow>
          Inr (update_images image_id_from_box v imgs))"

text \<open>The loop over the batch; an exception of the body is re-raised with status 400.\<close>

fun apply_validations :: "BoxValidation list \<Rightarrow> ImageRecord list \<Rightarrow> exn + ImageRecord list" where
  "apply_validations [] imgs = Inr imgs"
| "apply_validations (v # vs) imgs =
     (case validate_one v imgs of
        Inl e \<Rightarrow> Inl (HTTPException 400 [] (Some e))
      | Inr imgs' \<Rightarrow> apply_validations vs imgs')"

definition all_boxes_of :: "ImageRecord list \<Rightarrow> GroundTruthBox list" where
  "all_boxes_of imgs = concat (map boxes imgs)"

text \<open>The detector metrics of the most recent image, \<open>{}\<close> when there is none.\<close>

definition session_yolo_metrics :: "ImageRecord list \<Rightarrow> yolo_dict" where
  "session_yolo_metrics imgs =
     (if imgs = [] then empty_dict else dict_get (yolo_metrics (last imgs)) empty_dict)"

record ValidationResponse =
  resp_session_id :: string
  metrics :: TrueMetrics
  verified_count :: int
  total_images :: int
  total_boxes :: int

text \<open>
  The work on a loaded document: the stored boxes are constructed, the batch is applied to
  the dictionaries, the boxes are constructed again, and the metrics over all boxes of the
  session are computed, cached and returned. The result is the document to be written and
  the response; an exception leaves nothing to write.
\<close>

definition validate_loaded ::
  "string \<Rightarrow> Session \<Rightarrow> BoxValidation list \<Rightarrow> exn + (Session \<times> ValidationResponse)" where
  "validate_loaded sid session_data validations =
     (case parse_boxes (all_boxes_of (images session_data)) of
        Inl e \<Rightarrow> Inl e
      | Inr loaded \<Rightarrow>
          (let ym = session_yolo_metrics (images session_data)
           in case apply_validations validations (images session_data) of
                Inl e \<Rightarrow> Inl e
              | Inr imgs \<Rightarrow>
                  (case parse_boxes (all_boxes_of imgs) of
                     Inl e \<Rightarrow> Inl e
                   | Inr all_boxes \<Rightarrow>
                       (case calculate_true_metrics all_boxes ym of
                          Inl e \<Rightarrow> Inl e
                        | Inr tm \<Rightarrow>
                            Inr (session_data\<lparr> images := imgs, true_metrics := Some tm \<rparr>,
                                 \<lparr> resp_session_id = sid, metrics = tm,
                                   verified_count = count_if is_verified all_boxes,
                                   total_images = int (length imgs),
                                   total_boxes = int (length all_boxes) \<rparr>)))))"

text \<open>
  The endpoint. An invalid session identifier is answered with status 400. Everything else
  runs inside the outer \<open>try\<close>, whose \<open>except Exception\<close> turns every exception, the
  \<open>HTTPException\<close>s raised inside included, into status 500; the file is written only on
  success.
\<close>

definition validate_detections ::
  "(string \<Rightarrow> exn + string) \<Rightarrow> store \<Rightarrow> string \<Rightarrow> BoxValidation list
     \<Rightarrow> (exn + ValidationResponse) \<times> store" where
  "validate_detections vsid st sid0 validations =
     (case vsid sid0 of
        Inl e \<Rightarrow> (Inl (HTTPException 400 [] (Some e)), st)
      | Inr sid \<Rightarrow>
          (case (case st sid of
                   None \<Rightarrow> Inl (HTTPException 404 ''Session not found. Run inference first.'' None)
                 | Some session_data \<Rightarrow> validate_loaded sid session_data validations) of
             Inl e \<Rightarrow> (Inl (HTTPException 500 ''Validation failed: '' (Some e)), st)
           | Inr (session_data', resp) \<Rightarrow> (Inr resp, st(sid \<mapsto> session_data'))))"

subsection \<open>\<open>add_manual_box\<close>\<close>

definition ImageNotFound :: "string \<Rightarrow> exn" where
  "ImageNotFound iid = HTTPException 404 (''Image '' @ iid @ '' not found in session'') None"

definition BoxNotFound :: "string \<Rightarrow> exn" where
  "BoxNotFound bid = HTTPException 404 (''Box '' @ bid @ '' not found in image'') None"

record AddResponse =
  added_box_id :: string
  added_box :: GroundTruthBox
  add_message :: string

text \<open>The box dictionary that is appended.\<close>

definition manual_box :: "string \<Rightarrow> GroundTruthBox \<Rightarrow> GroundTruthBox" where
  "manual_box bid box =
     box\<lparr> box_id := Some bid, is_manual := True, is_verified := True, is_correct := True \<rparr>"

text \<open>
  The loop over the images: the first image with the identifier receives the box and the
  function returns; \<open>None\<close> when the loop ends without a match.
\<close>

fun add_to_images ::
  "string \<Rightarrow> GroundTruthBox \<Rightarrow> ImageRecord list \<Rightarrow> (ImageRecord list \<times> AddResponse) option" where
  "add_to_images iid box [] = None"
| "add_to_images iid box (img # imgs) =
     (if image_id img = iid then
        (let box_count = int (length (boxes img));
             bid = format_box_id iid box_count;
             box_dict = manual_box bid box
         in Some (img\<lparr> boxes := boxes img @ [box_dict] \<rparr> # imgs,
                  \<lparr> added_box_id = bid, added_box = box_dict,
                    add_message = ''Manual box added successfully'' \<rparr>))
      else (case add_to_images iid box imgs of
              None \<Rightarrow> None
            | Some (imgs', resp) \<Rightarrow> Some (img # imgs', resp)))"

definition add_manual_box ::
  "(string \<Rightarrow> exn + string) \<Rightarrow> store \<Rightarrow> string \<Rightarrow> string \<Rightarrow> GroundTruthBox
     \<Rightarrow> (exn + AddResponse) \<times> store" where
  "add_manual_box vsid st sid0 iid box =
     (case vsid sid0 of
        Inl e \<Rightarrow> (Inl (HTTPException 400 [] (Some e)), st)
      | Inr sid \<Rightarrow>
          (case (case st sid of
                   None \<Rightarrow> Inl (HTTPException 404 ''Session not found. Run inference first.'' None)
                 | Some session_data \<Rightarrow>
                     (case add_to_images iid box (images session_data) of
                        None \<Rightarrow> Inl (ImageNotFound iid)
                      | Some (imgs, resp) \<Rightarrow> Inr (session_data\<lparr> images := imgs \<rparr>, resp))) of
             Inl e \<Rightarrow> (Inl (HTTPException 500 ''Failed to add manual box: '' (Some e)), st)
           | Inr (session_data', resp) \<Rightarrow> (Inr resp, st(sid \<mapsto> session_data'))))"

subsection \<open>\<open>delete_box\<close>\<close>

record DeleteResponse =
  delete_message :: string
  deleted_box_id :: string
  remaining_boxes :: int

text \<open>
  The loop over the images, with the flags \<open>image_found\<close> and \<open>box_deleted\<close> as the outcome:
  the first image with the identifier keeps the boxes whose identifier differs; when that
  made the list shorter the document is written and the function returns, otherwise the
  loop is left by \<open>break\<close>.
\<close>

datatype delete_outcome = NoImage | NoBox | Deleted "ImageRecord list" int

fun delete_in_images :: "string \<Rightarrow> string \<Rightarrow> ImageRecord list \<Rightarrow> delete_outcome" where
  "delete_in_images iid bid [] = NoImage"
| "delete_in_images iid bid (img # imgs) =
     (if image_id img = iid then
        (let original_count = length (boxes img);
             kept = filter (\<lambda>box. box_id box \<noteq> Some bid) (boxes img);
             new_count = length kept
         in if new_count < original_count
            then Deleted (img\<lparr> boxes := kept \<rparr> # imgs) (int new_count)
            else NoBox)
      else (case delete_in_images iid bid imgs of
              Deleted imgs' n \<Rightarrow> Deleted (img # imgs') n
            | NoBox \<Rightarrow> NoBox
            | NoImage \<Rightarrow> NoImage))"

definition delete_box ::
  "(string \<Rightarrow> exn + string) \<Rightarrow> store \<Rightarrow> string \<Rightarrow> string \<Rightarrow> string
     \<Rightarrow> (exn + DeleteResponse) \<times> store" where
  "delete_box vsid st sid0 iid bid =
     (case vsid sid0 of
        Inl e \<Rightarrow> (Inl (HTTPException 400 [] (Some e)), st)
      | Inr sid \<Rightarrow>
          (case (case st sid of
                   None \<Rightarrow> Inl (HTTPException 404 ''Session not found.'' None)
                 | Some session_data \<Rightarrow>
                     (case delete_in_images iid bid (images session_data) of
                        NoImage \<Rightarrow> Inl (ImageNotFound iid)
                      | NoBox \<Rightarrow> Inl (BoxNotFound bid)
                      | Deleted imgs n \<Rightarrow>
                          Inr (session_data\<lparr> images := imgs \<rparr>,
                               \<lparr> delete_message = ''Box deleted successfully'',
                                 deleted_box_id = bid, remaining_boxes = n \<rparr>))) of
             Inl e \<Rightarrow> (Inl (HTTPException 500 ''Failed to delete box: '' (Some e)), st)
           | Inr (session_data', resp) \<Rightarrow> (Inr resp, st(sid \<mapsto> session_data'))))"

section \<open>Example sessions\<close>

text \<open>A session identifier check that accepts every identifier.\<close>

definition accept_all :: "string \<Rightarrow> exn + string" where
  "accept_all sid = Inr sid"

text \<open>The boxes of the first image with a given identifier in a stored session.\<close>

definition stored_boxes :: "store \<Rightarrow> string \<Rightarrow> string \<Rightarrow> GroundTruthBox list option" where
  "stored_boxes st sid iid =
     (case st sid of
        None \<Rightarrow> None
      | Some sd \<Rightarrow> map_option boxes (find (\<lambda>img. image_id img = iid) (images sd)))"

text \<open>A box as \<open>run_inference\<close> stores it: not verified, provisionally correct, not manual.\<close>

definition detected_box :: "string \<Rightarrow> GroundTruthBox" where
  "detected_box bid = example_box bid False True False"

definition image_a :: ImageRecord where
  "image_a = \<lparr> image_id = ''a'', timestamp = ''2024-01-01T00:00:00'',
               boxes = [detected_box ''a_box_0'', detected_box ''a_box_1'',
                        detected_box ''a_box_2''],
               yolo_metrics = Some example_yolo \<rparr>"

definition session_s1 :: Session where
  "session_s1 = \<lparr> session_id = ''s1'', images = [image_a], true_metrics = None \<rparr>"

definition store_s1 :: store where
  "store_s1 = Map.empty(''s1'' \<mapsto> session_s1)"

definition correction :: "string \<Rightarrow> bool \<Rightarrow> real option \<Rightarrow> string option \<Rightarrow> BoxValidation" where
  "correction bid correct conf txt =
     \<lparr> v_box_id = bid, v_is_correct = correct, confidence_override = conf, v_notes = txt \<rparr>"



text \<open>
  Two corrections of the same box: the first supplies a confidence and notes, the second
  supplies neither.
\<close>

definition first_review :: BoxValidation where
  "first_review = correction ''a_box_0'' True (Some (1 / 2)) (Some ''checked'')"

definition second_review :: BoxValidation where
  "second_review = correction ''a_box_0'' False None None"

text \<open>
  The store after deleting \<open>a_box_0\<close> from image \<open>a\<close> and then adding a manual box to it:
  the manual box is numbered by the box count 2, an identifier that a detector box
  already carries.
\<close>

definition store_after_delete :: store where
  "store_after_delete = snd (delete_box accept_all store_s1 ''s1'' ''a'' ''a_box_0'')"

definition store_after_add :: store where
  "store_after_add =
     snd (add_manual_box accept_all store_after_delete ''s1'' ''a'' (detected_box ''new''))"

section \<open>Properties of binary floats\<close>


lemma floor_log2_bounds: "0 < n \<Longrightarrow> 2 ^ floor_log2 n \<le> n \<and> n < 2 ^ Suc (floor_log2 n)"
proof (induction n rule: floor_log2.induct)
  case (1 n)
  show ?case
  proof (cases "n < 2")
    case True
    with "1.prems" show ?thesis by (simp add: floor_log2.simps [of n])
  next
    case False
    then have "0 < n div 2" by simp
    with "1.IH" False
    have ih: "2 ^ floor_log2 (n div 2) \<le> n div 2 \<and> n div 2 < 2 ^ Suc (floor_log2 (n div 2))"
      by simp
    have s: "floor_log2 n = Suc (floor_log2 (n div 2))"
      using False by (simp add: floor_log2.simps [of n])
    show ?thesis unfolding s using ih by (simp, arith)
  qed
qed

lemma float_exponent_bounds:
  assumes "0 < x"
  shows "power_int 2 (float_exponent x) \<le> x \<and> x < power_int 2 (float_exponent x + 1)"
proof (cases "1 \<le> x")
  case True
  let ?n = "nat \<lfloor>x\<rfloor>"
  have n: "0 < ?n" using True by simp
  have e: "float_exponent x = int (floor_log2 ?n)" using True by (simp add: float_exponent_def)
  from floor_log2_bounds [OF n]
  have lo: "2 ^ floor_log2 ?n \<le> ?n" and hi: "?n < 2 ^ Suc (floor_log2 ?n)" by simp_all
  have "real (2 ^ floor_log2 ?n) \<le> real ?n" using lo by (simp only: of_nat_le_iff)
  also have "real ?n \<le> x"
  proof -
    have "0 \<le> \<lfloor>x\<rfloor>" using True by simp
    then have "real ?n = of_int \<lfloor>x\<rfloor>" by simp
    then show ?thesis by simp
  qed
  finally have 1: "(2::real) ^ floor_log2 ?n \<le> x" by simp
  have "?n + 1 \<le> 2 ^ Suc (floor_log2 ?n)" using hi by simp
  then have "real (?n + 1) \<le> real (2 ^ Suc (floor_log2 ?n))" by (simp only: of_nat_le_iff)
  moreover have "x < real (?n + 1)"
  proof -
    have "0 \<le> \<lfloor>x\<rfloor>" using True by simp
    then have "real (?n + 1) = of_int \<lfloor>x\<rfloor> + 1" by simp
    moreover have "x < of_int \<lfloor>x\<rfloor> + 1" by linarith
    ultimately show ?thesis by linarith
  qed
  ultimately have 2: "x < (2::real) ^ Suc (floor_log2 ?n)" by simp
  have e1: "power_int (2::real) (float_exponent x) = 2 ^ floor_log2 ?n"
    unfolding e by (rule power_int_of_nat)
  have "float_exponent x + 1 = int (Suc (floor_log2 ?n))" using e by simp
  then have e2: "power_int (2::real) (float_exponent x + 1) = 2 ^ Suc (floor_log2 ?n)"
    by (simp only: power_int_of_nat)
  show ?thesis unfolding e1 e2 using 1 2 by blast
next
  case False
  let ?n = "nat \<lceil>1 / x\<rceil>"
  let ?j = "floor_log2 (?n - 1)"
  have x1: "1 < 1 / x" using assms False by simp
  then have c: "2 \<le> \<lceil>1 / x\<rceil>" by linarith
  then have n2: "2 \<le> ?n" by linarith
  then have n: "0 < ?n - 1" by linarith
  have e: "float_exponent x = - int (Suc ?j)" using False by (simp add: float_exponent_def)
  from floor_log2_bounds [OF n]
  have lo: "2 ^ ?j \<le> ?n - 1" and hi: "?n - 1 < 2 ^ Suc ?j" by simp_all
  have rn: "real ?n = of_int \<lceil>1 / x\<rceil>"
  proof -
    have "0 \<le> \<lceil>1 / x\<rceil>" using c by linarith
    then show ?thesis by (rule of_nat_nat)
  qed
  have "real (2 ^ ?j) \<le> real (?n - 1)" using lo by (simp only: of_nat_le_iff)
  moreover have "real (?n - 1) = real ?n - 1" using n2 by (simp add: of_nat_diff)
  moreover have "real ?n - 1 < 1 / x" unfolding rn by linarith
  ultimately have "real (2 ^ ?j) < 1 / x" by linarith
  then have a: "(2::real) ^ ?j < 1 / x" by (simp only: of_nat_power of_nat_numeral)
  have "?n \<le> 2 ^ Suc ?j" using hi by linarith
  then have "real ?n \<le> real (2 ^ Suc ?j)" by (simp only: of_nat_le_iff)
  moreover have "1 / x \<le> real ?n" unfolding rn by linarith
  ultimately have "1 / x \<le> real (2 ^ Suc ?j)" by linarith
  then have b: "1 / x \<le> (2::real) ^ Suc ?j" by (simp only: of_nat_power of_nat_numeral)
  have p: "(0::real) < 2 ^ ?j" "(0::real) < 2 ^ Suc ?j" by simp_all
  have lower: "1 / (2::real) ^ Suc ?j \<le> x"
    using b assms p(2) by (simp add: field_simps)
  have upper: "x < 1 / (2::real) ^ ?j"
    using a assms p(1) by (simp add: field_simps)
  have e1: "power_int (2::real) (float_exponent x) = 1 / 2 ^ Suc ?j"
    unfolding e by (simp only: power_int_minus_divide power_int_of_nat)
  have "float_exponent x + 1 = - int ?j" using e by simp
  then have e2: "power_int (2::real) (float_exponent x + 1) = 1 / 2 ^ ?j"
    by (simp only: power_int_minus_divide power_int_of_nat)
  show ?thesis unfolding e1 e2 using lower upper by simp
qed

lemma float_exponent_mono:
  assumes "0 < x" "x \<le> y"
  shows "float_exponent x \<le> float_exponent y"
proof (rule ccontr)
  assume "\<not> float_exponent x \<le> float_exponent y"
  then have "float_exponent y + 1 \<le> float_exponent x" by simp
  then have "power_int (2::real) (float_exponent y + 1) \<le> power_int 2 (float_exponent x)"
    by (intro power_int_increasing) simp_all
  moreover have "power_int 2 (float_exponent x) \<le> x"
    using float_exponent_bounds [OF assms(1)] by simp
  moreover have "y < power_int 2 (float_exponent y + 1)"
    using float_exponent_bounds [of y] assms by simp
  ultimately show False using assms(2) by linarith
qed

lemma round_half_even_of_int: "round_half_even (of_int n) = n"
  by (simp add: round_half_even_def)

lemma round_half_even_ge: "of_int k \<le> y \<Longrightarrow> k \<le> round_half_even y"
proof -
  assume "of_int k \<le> y"
  then have "k \<le> \<lfloor>y\<rfloor>" by (simp add: le_floor_iff)
  then show ?thesis by (simp add: round_half_even_def Let_def)
qed

lemma round_half_even_le: "y \<le> of_int k \<Longrightarrow> round_half_even y \<le> k"
proof -
  assume a: "y \<le> of_int k"
  have fl: "\<lfloor>y\<rfloor> \<le> k" using a by (simp add: floor_le_iff)
  show ?thesis
  proof (cases "y - of_int \<lfloor>y\<rfloor> < 1 / 2")
    case True
    then show ?thesis using fl by (simp add: round_half_even_def Let_def)
  next
    case False
    then have "of_int \<lfloor>y\<rfloor> < y" by linarith
    then have "of_int \<lfloor>y\<rfloor> < (of_int k :: real)" using a by linarith
    then have "\<lfloor>y\<rfloor> < k" by simp
    then show ?thesis by (simp add: round_half_even_def Let_def)
  qed
qed

lemma round_half_even_mono:
  assumes "x \<le> y"
  shows "round_half_even x \<le> round_half_even y"
proof (cases "\<lfloor>x\<rfloor> = \<lfloor>y\<rfloor>")
  case True
  then show ?thesis using assms by (auto simp add: round_half_even_def Let_def)
next
  case False
  then have "\<lfloor>x\<rfloor> < \<lfloor>y\<rfloor>" using assms floor_mono [of x y] by linarith
  then have "\<lfloor>x\<rfloor> + 1 \<le> \<lfloor>y\<rfloor>" by simp
  moreover have "round_half_even x \<le> \<lfloor>x\<rfloor> + 1"
  proof (rule round_half_even_le)
    have "x \<le> of_int \<lfloor>x\<rfloor> + 1" by linarith
    then show "x \<le> of_int (\<lfloor>x\<rfloor> + 1)" by simp
  qed
  moreover have "\<lfloor>y\<rfloor> \<le> round_half_even y"
    by (rule round_half_even_ge) simp
  ultimately show ?thesis by linarith
qed


lemma quantum_exponent_ge: "- 1074 \<le> quantum_exponent x"
  by (simp add: quantum_exponent_def)

lemma quantum_exponent_mono:
  "0 < x \<Longrightarrow> x \<le> y \<Longrightarrow> quantum_exponent x \<le> quantum_exponent y"
  using float_exponent_mono [of x y] by (simp add: quantum_exponent_def)

lemma power_int_2_split:
  "power_int (2::real) (q + 53) = 2 ^ 53 * power_int 2 q"
  "power_int (2::real) (q + 52) = 2 ^ 52 * power_int 2 q"
  by (simp_all add: power_int_add mult.commute)

lemma power_int_2_diff:
  assumes "a \<le> b"
  shows "power_int (2::real) b = power_int 2 a * 2 ^ nat (b - a)"
proof -
  have "power_int (2::real) (a + (b - a)) = power_int 2 a * power_int 2 (b - a)"
    by (rule power_int_add) simp
  moreover have "power_int (2::real) (b - a) = 2 ^ nat (b - a)"
    using assms by (intro power_int_nonneg_exp) simp
  ultimately show ?thesis by simp
qed

lemma rescale:
  fixes p a k c :: real
  assumes "0 < p" "a = p * k"
  shows "c * a / p = c * k \<and> (c * k) * p = c * a"
  using assms by simp

lemma scaled_below:
  assumes "0 < x"
  shows "x / power_int 2 (quantum_exponent x) < 2 ^ 53"
proof -
  let ?q = "quantum_exponent x"
  have "float_exponent x + 1 \<le> ?q + 53" by (simp add: quantum_exponent_def)
  then have "power_int (2::real) (float_exponent x + 1) \<le> power_int 2 (?q + 53)"
    by (intro power_int_increasing) simp_all
  moreover have "x < power_int 2 (float_exponent x + 1)"
    using float_exponent_bounds [OF assms] by simp
  ultimately have "x < 2 ^ 53 * power_int 2 ?q" by (simp add: power_int_2_split)
  moreover have "(0::real) < power_int 2 ?q" by simp
  ultimately show ?thesis by (simp add: divide_less_eq)
qed

lemma nearest_double_nonneg: "0 < x \<Longrightarrow> 0 \<le> nearest_double x"
proof -
  assume "0 < x"
  then have "of_int 0 \<le> x / power_int 2 (quantum_exponent x)" by simp
  then have "0 \<le> round_half_even (x / power_int 2 (quantum_exponent x))"
    by (rule round_half_even_ge)
  then show ?thesis by (simp add: nearest_double_def Let_def)
qed

lemma nearest_double_upper:
  assumes "0 < x"
  shows "nearest_double x \<le> power_int 2 (quantum_exponent x + 53)"
proof -
  let ?q = "quantum_exponent x"
  have "x / power_int 2 ?q \<le> of_int (2 ^ 53)" using scaled_below [OF assms] by simp
  then have "round_half_even (x / power_int 2 ?q) \<le> 2 ^ 53" by (rule round_half_even_le)
  then have "real_of_int (round_half_even (x / power_int 2 ?q)) \<le> real_of_int (2 ^ 53)"
    by (simp only: of_int_le_iff)
  then have "real_of_int (round_half_even (x / power_int 2 ?q)) * power_int 2 ?q
               \<le> 2 ^ 53 * power_int 2 ?q"
    by (intro mult_right_mono) simp_all
  then show ?thesis by (simp add: nearest_double_def Let_def power_int_2_split)
qed

lemma nearest_double_lower:
  assumes "0 < x" "- 1022 \<le> float_exponent x"
  shows "power_int 2 (float_exponent x) \<le> nearest_double x"
proof -
  let ?q = "quantum_exponent x"
  have q: "float_exponent x = ?q + 52" using assms(2) by (simp add: quantum_exponent_def)
  have "2 ^ 52 * power_int 2 ?q \<le> x"
    using float_exponent_bounds [OF assms(1)] by (simp add: q power_int_2_split)
  moreover have "(0::real) < power_int 2 ?q" by simp
  ultimately have "of_int (2 ^ 52) \<le> x / power_int 2 ?q" by (simp add: le_divide_eq)
  then have "2 ^ 52 \<le> round_half_even (x / power_int 2 ?q)" by (rule round_half_even_ge)
  then have "real_of_int (2 ^ 52) \<le> real_of_int (round_half_even (x / power_int 2 ?q))"
    by (simp only: of_int_le_iff)
  then have "2 ^ 52 * power_int 2 ?q
               \<le> real_of_int (round_half_even (x / power_int 2 ?q)) * power_int 2 ?q"
    by (intro mult_right_mono) simp_all
  then show ?thesis by (simp add: nearest_double_def Let_def q power_int_2_split)
qed

lemma nearest_double_mono:
  assumes "0 < x" "x \<le> y"
  shows "nearest_double x \<le> nearest_double y"
proof (cases "quantum_exponent x = quantum_exponent y")
  case True
  have "x / power_int 2 (quantum_exponent y) \<le> y / power_int 2 (quantum_exponent y)"
    using assms(2) by (simp add: divide_right_mono)
  then have "round_half_even (x / power_int 2 (quantum_exponent y))
               \<le> round_half_even (y / power_int 2 (quantum_exponent y))"
    by (rule round_half_even_mono)
  then have "real_of_int (round_half_even (x / power_int 2 (quantum_exponent y)))
               * power_int 2 (quantum_exponent y)
             \<le> real_of_int (round_half_even (y / power_int 2 (quantum_exponent y)))
               * power_int 2 (quantum_exponent y)"
    by (intro mult_right_mono) simp_all
  then show ?thesis by (simp add: nearest_double_def Let_def True)
next
  case False
  have y: "0 < y" using assms by simp
  have lt: "quantum_exponent x < quantum_exponent y"
    using False quantum_exponent_mono [OF assms] by simp
  then have ey: "- 1022 \<le> float_exponent y" "quantum_exponent x + 53 \<le> float_exponent y"
    unfolding quantum_exponent_def by linarith+
  have "nearest_double x \<le> power_int 2 (quantum_exponent x + 53)"
    by (rule nearest_double_upper [OF assms(1)])
  also have "\<dots> \<le> power_int 2 (float_exponent y)"
    using ey(2) by (intro power_int_increasing) simp_all
  also have "\<dots> \<le> nearest_double y" by (rule nearest_double_lower [OF y ey(1)])
  finally show ?thesis .
qed

lemma nearest_double_representable:
  assumes "1 \<le> m" "m < 2 ^ 53" "- 1074 \<le> q"
  shows "nearest_double (of_int m * power_int 2 q) = of_int m * power_int 2 q"
proof -
  let ?y = "real_of_int m * power_int 2 q"
  let ?qy = "quantum_exponent ?y"
  have y: "0 < ?y" using assms(1) by simp
  have "real_of_int m < 2 ^ 53" using assms(2) by (metis of_int_less_iff of_int_numeral of_int_power)
  then have "?y < 2 ^ 53 * power_int 2 q" by simp
  then have "?y < power_int 2 (q + 53)" by (simp add: power_int_2_split)
  moreover have "power_int 2 (float_exponent ?y) \<le> ?y"
    using float_exponent_bounds [OF y] by simp
  ultimately have l: "power_int (2::real) (float_exponent ?y) < power_int 2 (q + 53)"
    by linarith
  have "float_exponent ?y < q + 53"
  proof (rule ccontr)
    assume "\<not> float_exponent ?y < q + 53"
    then have "q + 53 \<le> float_exponent ?y" by simp
    then have "power_int (2::real) (q + 53) \<le> power_int 2 (float_exponent ?y)"
      by (intro power_int_increasing) simp_all
    then show False using l by linarith
  qed
  then have le: "?qy \<le> q" using assms(3) by (simp add: quantum_exponent_def)
  then have "power_int (2::real) q = power_int 2 ?qy * 2 ^ nat (q - ?qy)"
    by (rule power_int_2_diff)
  then have "?y / power_int 2 ?qy = real_of_int m * 2 ^ nat (q - ?qy)
             \<and> (real_of_int m * 2 ^ nat (q - ?qy)) * power_int 2 ?qy = ?y"
    by (intro rescale) simp_all
  then have sc: "?y / power_int 2 ?qy = of_int (m * 2 ^ nat (q - ?qy))"
    and unscale: "of_int (m * 2 ^ nat (q - ?qy)) * power_int 2 ?qy = ?y"
    by simp_all
  show ?thesis
    by (simp only: nearest_double_def Let_def sc round_half_even_of_int unscale)
qed


lemma nearest_double_fixed:
  assumes "0 < x" "0 < nearest_double x"
  shows "nearest_double (nearest_double x) = nearest_double x"
proof -
  let ?q = "quantum_exponent x"
  let ?m = "round_half_even (x / power_int 2 ?q)"
  have nd: "nearest_double x = of_int ?m * power_int 2 ?q"
    by (simp add: nearest_double_def Let_def)
  have "x / power_int 2 ?q \<le> of_int (2 ^ 53)" using scaled_below [OF assms(1)] by simp
  then have up: "?m \<le> 2 ^ 53" by (rule round_half_even_le)
  have "0 < real_of_int ?m * power_int 2 ?q" using assms(2) nd by simp
  moreover have "(0::real) < power_int 2 ?q" by simp
  ultimately have "0 < real_of_int ?m" by (rule zero_less_mult_pos2)
  then have lo: "1 \<le> ?m" by simp
  show ?thesis
  proof (cases "?m < 2 ^ 53")
    case True
    show ?thesis
      unfolding nd
      by (rule nearest_double_representable [OF lo True quantum_exponent_ge])
  next
    case False
    then have m: "?m = 2 ^ 53" using up by simp
    have "real_of_int ?m * power_int 2 ?q = 2 ^ 53 * power_int 2 ?q" by (simp add: m)
    also have "\<dots> = real_of_int (2 ^ 52) * power_int 2 (?q + 1)"
      by (simp add: power_int_add)
    finally have e: "nearest_double x = real_of_int (2 ^ 52) * power_int 2 (?q + 1)"
      using nd by simp
    have q1: "- 1074 \<le> ?q + 1" using quantum_exponent_ge [of x] by simp
    show ?thesis
      unfolding e
      by (rule nearest_double_representable [OF _ _ q1]) simp_all
  qed
qed

lemma to_double_0: "to_double 0 = 0"
  by (simp add: to_double_def)

lemma to_double_nonneg: "0 \<le> x \<Longrightarrow> 0 \<le> to_double x"
  by (simp add: to_double_def nearest_double_nonneg)

lemma to_double_mono:
  assumes "0 \<le> x" "x \<le> y"
  shows "to_double x \<le> to_double y"
proof (cases "x = 0")
  case True
  then show ?thesis using assms to_double_nonneg [of y] by (simp add: to_double_def)
next
  case False
  then have "0 < x" using assms(1) by simp
  then show ?thesis using assms(2) nearest_double_mono [of x y] by (simp add: to_double_def)
qed

lemma to_double_idem:
  assumes "0 \<le> x"
  shows "to_double (to_double x) = to_double x"
proof (cases "x = 0")
  case True
  then show ?thesis by (simp add: to_double_def)
next
  case False
  then have x: "0 < x" using assms by simp
  then have t: "to_double x = nearest_double x" by (simp add: to_double_def)
  show ?thesis
  proof (cases "nearest_double x = 0")
    case True
    show ?thesis unfolding t True by (rule to_double_0)
  next
    case False
    then have p: "0 < nearest_double x" using nearest_double_nonneg [OF x] by simp
    then have "to_double (nearest_double x) = nearest_double (nearest_double x)"
      by (simp add: to_double_def)
    then show ?thesis unfolding t using nearest_double_fixed [OF x p] by simp
  qed
qed

lemma to_double_1: "to_double 1 = 1"
  by code_simp

lemma to_double_100: "to_double 100 = 100"
  by code_simp

lemma to_double_le_1: "0 \<le> x \<Longrightarrow> x \<le> 1 \<Longrightarrow> to_double x \<le> 1"
  using to_double_mono [of x 1] by (simp add: to_double_1)

lemma to_double_le_100: "0 \<le> x \<Longrightarrow> x \<le> 100 \<Longrightarrow> to_double x \<le> 100"
  using to_double_mono [of x 100] by (simp add: to_double_100)

lemma rounded_decimal_bounds:
  assumes "0 \<le> x" "x \<le> of_int k"
  shows "0 \<le> real_of_int (round_half_even (x * 10 ^ n)) / 10 ^ n"
    and "real_of_int (round_half_even (x * 10 ^ n)) / 10 ^ n \<le> of_int k"
proof -
  have "of_int 0 \<le> x * 10 ^ n" using assms(1) by simp
  then have "0 \<le> round_half_even (x * 10 ^ n)" by (rule round_half_even_ge)
  then show "0 \<le> real_of_int (round_half_even (x * 10 ^ n)) / 10 ^ n" by simp
  have "x * 10 ^ n \<le> of_int (k * 10 ^ n)" using assms(2) by simp
  then have "round_half_even (x * 10 ^ n) \<le> k * 10 ^ n" by (rule round_half_even_le)
  then have "real_of_int (round_half_even (x * 10 ^ n)) \<le> real_of_int (k * 10 ^ n)"
    by (simp only: of_int_le_iff)
  then show "real_of_int (round_half_even (x * 10 ^ n)) / 10 ^ n \<le> of_int k"
    by (simp add: divide_le_eq)
qed

lemma py_round_lower: "0 \<le> x \<Longrightarrow> 0 \<le> py_round x n"
proof -
  assume a: "0 \<le> x"
  have "x \<le> of_int \<lceil>x\<rceil>" by simp
  from rounded_decimal_bounds(1) [OF a this] show ?thesis
    unfolding py_round_def by (rule to_double_nonneg)
qed

lemma py_round_le_1: "0 \<le> x \<Longrightarrow> x \<le> 1 \<Longrightarrow> py_round x n \<le> 1"
  unfolding py_round_def
  using rounded_decimal_bounds [of x 1 n] by (intro to_double_le_1) simp_all

lemma py_round_le_100: "0 \<le> x \<Longrightarrow> x \<le> 100 \<Longrightarrow> py_round x n \<le> 100"
  unfolding py_round_def
  using rounded_decimal_bounds [of x 100 n] by (intro to_double_le_100) simp_all

lemma py_round_zero: "py_round 0 n = 0"
  by (simp add: py_round_def round_half_even_def to_double_0)

lemma py_round_one: "py_round 1 n = 1"
proof -
  have "round_half_even (10 ^ n) = 10 ^ n"
    using round_half_even_of_int [of "10 ^ n"] by simp
  then show ?thesis by (simp add: py_round_def to_double_1)
qed


section \<open>Properties of the true metrics\<close>

subsection \<open>Bounds of the rates\<close>

lemma int_truediv_bounds:
  assumes "0 \<le> a" "a \<le> b" "0 < b"
  shows "0 \<le> int_truediv a b \<and> int_truediv a b \<le> 1"
proof -
  have "0 \<le> real_of_int a / real_of_int b" using assms by simp
  moreover have "real_of_int a / real_of_int b \<le> 1" using assms by (simp add: divide_le_eq)
  ultimately show ?thesis
    unfolding int_truediv_def using to_double_nonneg to_double_le_1 by blast
qed

lemma int_truediv_float:
  assumes "0 \<le> a" "0 < b"
  shows "to_double (int_truediv a b) = int_truediv a b"
proof -
  have "0 \<le> real_of_int a / real_of_int b" using assms by simp
  then show ?thesis unfolding int_truediv_def by (rule to_double_idem)
qed

lemma precision_of_bounds:
  "0 \<le> tp \<Longrightarrow> 0 \<le> fp \<Longrightarrow> 0 \<le> precision_of tp fp \<and> precision_of tp fp \<le> 1"
  using int_truediv_bounds [of tp "tp + fp"] by (simp add: precision_of_def)

lemma precision_of_float:
  "0 \<le> tp \<Longrightarrow> 0 \<le> fp \<Longrightarrow> to_double (precision_of tp fp) = precision_of tp fp"
  using int_truediv_float [of tp "tp + fp"] by (simp add: precision_of_def to_double_0)

lemma recall_of_bounds:
  "0 \<le> tp \<Longrightarrow> 0 \<le> fn \<Longrightarrow> 0 \<le> recall_of tp fn \<and> recall_of tp fn \<le> 1"
  using int_truediv_bounds [of tp "tp + fn"] by (simp add: recall_of_def)

lemma recall_of_float:
  "0 \<le> tp \<Longrightarrow> 0 \<le> fn \<Longrightarrow> to_double (recall_of tp fn) = recall_of tp fn"
  using int_truediv_float [of tp "tp + fn"] by (simp add: recall_of_def to_double_0 to_double_1)

lemma f1_of_bounds:
  assumes "0 \<le> p" "p \<le> 1" "0 \<le> r" "r \<le> 1" "to_double p = p" "to_double r = r"
  shows "0 \<le> f1_of p r \<and> f1_of p r \<le> 1"
proof (cases "float_add p r > 0")
  case False
  then show ?thesis by (simp add: f1_of_def)
next
  case True
  let ?pr = "float_mul p r"
  let ?num = "float_mul 2 ?pr"
  let ?den = "float_add p r"
  have pr0: "0 \<le> p * r" using assms by simp
  have "p * r \<le> p * 1" using assms by (intro mult_left_mono) auto
  then have "to_double (p * r) \<le> to_double p" using pr0 by (intro to_double_mono) simp_all
  then have le_p: "?pr \<le> p" by (simp add: float_mul_def assms(5))
  have "p * r \<le> 1 * r" using assms by (intro mult_right_mono) auto
  then have "to_double (p * r) \<le> to_double r" using pr0 by (intro to_double_mono) simp_all
  then have le_r: "?pr \<le> r" by (simp add: float_mul_def assms(6))
  have pr_nonneg: "0 \<le> ?pr" unfolding float_mul_def by (rule to_double_nonneg [OF pr0])
  have "2 * ?pr \<le> p + r" using le_p le_r by simp
  then have "to_double (2 * ?pr) \<le> to_double (p + r)"
    using pr_nonneg by (intro to_double_mono) simp_all
  then have num_le: "?num \<le> ?den" by (simp add: float_mul_def float_add_def)
  have num_nonneg: "0 \<le> ?num"
    using pr_nonneg by (simp add: float_mul_def [of 2] to_double_nonneg)
  have q0: "0 \<le> ?num / ?den" using num_nonneg True by simp
  have q1: "?num / ?den \<le> 1" using num_le True by (simp add: divide_le_eq)
  have "f1_of p r = to_double (?num / ?den)" using True by (simp add: f1_of_def float_div_def)
  then show ?thesis using to_double_nonneg [OF q0] to_double_le_1 [OF q0 q1] by simp
qed

lemma fp_rate_of_bounds:
  assumes "0 \<le> fp" "fp \<le> tv"
  shows "0 \<le> fp_rate_of fp tv \<and> fp_rate_of fp tv \<le> 100"
proof (cases "tv > 0")
  case False
  then show ?thesis by (simp add: fp_rate_of_def)
next
  case True
  have b: "0 \<le> int_truediv fp tv \<and> int_truediv fp tv \<le> 1"
    by (rule int_truediv_bounds [OF assms True])
  then have "0 \<le> int_truediv fp tv * 100" "int_truediv fp tv * 100 \<le> 100" by simp_all
  then show ?thesis
    using True to_double_nonneg to_double_le_100 by (simp add: fp_rate_of_def float_mul_def)
qed

lemma count_if_nonneg: "0 \<le> count_if c bs"
  by (simp add: count_if_def)

lemma count_if_le_length: "count_if c bs \<le> int (length bs)"
  by (simp add: count_if_def)

lemma calculate_true_metrics_unverified:
  "filter is_verified bs = [] \<Longrightarrow> calculate_true_metrics bs ym =
     TrueMetrics_init 0 0 0 0 0 0 0 0
       (dict_get (avg_confidence ym) 0) (dict_get (box_count ym) 0) (dict_get (fps ym) 0)"
  by (simp add: calculate_true_metrics_def)

lemma calculate_true_metrics_verified:
  "filter is_verified bs \<noteq> [] \<Longrightarrow> calculate_true_metrics bs ym =
     TrueMetrics_init
       (count_if is_correct (filter is_verified bs))
       (count_if is_false_positive (filter is_verified bs))
       (count_if is_false_negative bs)
       (int (length (filter is_verified bs)))
       (py_round (precision_of (count_if is_correct (filter is_verified bs))
                   (count_if is_false_positive (filter is_verified bs))) 3)
       (py_round (recall_of (count_if is_correct (filter is_verified bs))
                   (count_if is_false_negative bs)) 3)
       (py_round (f1_of
          (precision_of (count_if is_correct (filter is_verified bs))
                   (count_if is_false_positive (filter is_verified bs)))
          (recall_of (count_if is_correct (filter is_verified bs))
                   (count_if is_false_negative bs))) 3)
       (py_round (fp_rate_of (count_if is_false_positive (filter is_verified bs))
                   (int (length (filter is_verified bs)))) 1)
       (dict_get (avg_confidence ym) 0) (dict_get (box_count ym) 0) (dict_get (fps ym) 0)"
  by (simp add: calculate_true_metrics_def Let_def precision_of_def recall_of_def f1_of_def
        fp_rate_of_def)

lemma TrueMetrics_init_Inr:
  "0 \<le> tp \<Longrightarrow> 0 \<le> fp \<Longrightarrow> 0 \<le> fn \<Longrightarrow> 0 \<le> tv \<Longrightarrow> 0 \<le> p \<and> p \<le> 1 \<Longrightarrow> 0 \<le> r \<and> r \<le> 1
   \<Longrightarrow> 0 \<le> f \<and> f \<le> 1 \<Longrightarrow> 0 \<le> fpr \<and> fpr \<le> 100 \<Longrightarrow> yolo_ok ym \<Longrightarrow>
   TrueMetrics_init tp fp fn tv p r f fpr
       (dict_get (avg_confidence ym) 0) (dict_get (box_count ym) 0) (dict_get (fps ym) 0) =
     Inr \<lparr> true_positives = tp, false_positives = fp, false_negatives = fn,
           total_verified = tv, precision = p, recall = r, f1_score = f,
           false_positive_rate = fpr,
           yolo_avg_confidence = dict_get (avg_confidence ym) 0,
           yolo_box_count = dict_get (box_count ym) 0,
           yolo_fps = dict_get (fps ym) 0 \<rparr>"
  by (simp add: TrueMetrics_init_def yolo_ok_def check_valid_metric_def)

lemma TrueMetrics_init_Inl:
  "\<not> yolo_ok ym \<Longrightarrow>
   TrueMetrics_init tp fp fn tv p r f fpr
       (dict_get (avg_confidence ym) 0) (dict_get (box_count ym) 0) (dict_get (fps ym) 0) =
     Inl ValidationError"
  by (auto simp add: TrueMetrics_init_def yolo_ok_def)

lemma count_fp_le_verified:
  "count_if is_false_positive (filter is_verified bs) \<le> int (length (filter is_verified bs))"
  by (rule count_if_le_length)

lemma disjoint_filters_length:
  "(\<And>x. \<not> (P x \<and> Q x)) \<Longrightarrow> length (filter P xs) + length (filter Q xs) \<le> length xs"
  by (induction xs) auto

lemma tp_fp_le_verified:
  "count_if is_correct vs + count_if is_false_positive vs \<le> int (length vs)"
proof -
  have "length (filter is_correct vs) + length (filter is_false_positive vs) \<le> length vs"
    by (rule disjoint_filters_length) (simp add: is_false_positive_def)
  then show ?thesis by (simp add: count_if_def)
qed

text \<open>The four rounded rates of a list with a verified box are in range.\<close>

lemma rounded_rates_in_range:
  fixes bs :: "GroundTruthBox list"
  defines "tp \<equiv> count_if is_correct (filter is_verified bs)"
      and "fp \<equiv> count_if is_false_positive (filter is_verified bs)"
      and "fn \<equiv> count_if is_false_negative bs"
      and "tv \<equiv> int (length (filter is_verified bs))"
  shows "0 \<le> py_round (precision_of tp fp) 3 \<and> py_round (precision_of tp fp) 3 \<le> 1"
    and "0 \<le> py_round (recall_of tp fn) 3 \<and> py_round (recall_of tp fn) 3 \<le> 1"
    and "0 \<le> py_round (f1_of (precision_of tp fp) (recall_of tp fn)) 3
         \<and> py_round (f1_of (precision_of tp fp) (recall_of tp fn)) 3 \<le> 1"
    and "0 \<le> py_round (fp_rate_of fp tv) 1 \<and> py_round (fp_rate_of fp tv) 1 \<le> 100"
proof -
  have n: "0 \<le> tp" "0 \<le> fp" "0 \<le> fn"
    unfolding tp_def fp_def fn_def by (rule count_if_nonneg)+
  have le: "fp \<le> tv" unfolding fp_def tv_def by (rule count_fp_le_verified)
  have p: "0 \<le> precision_of tp fp \<and> precision_of tp fp \<le> 1"
    by (rule precision_of_bounds [OF n(1) n(2)])
  have r: "0 \<le> recall_of tp fn \<and> recall_of tp fn \<le> 1"
    by (rule recall_of_bounds [OF n(1) n(3)])
  have f: "0 \<le> f1_of (precision_of tp fp) (recall_of tp fn)
           \<and> f1_of (precision_of tp fp) (recall_of tp fn) \<le> 1"
    using p r precision_of_float [OF n(1) n(2)] recall_of_float [OF n(1) n(3)]
    by (intro f1_of_bounds) simp_all
  have q: "0 \<le> fp_rate_of fp tv \<and> fp_rate_of fp tv \<le> 100"
    by (rule fp_rate_of_bounds [OF n(2) le])
  show "0 \<le> py_round (precision_of tp fp) 3 \<and> py_round (precision_of tp fp) 3 \<le> 1"
    using p py_round_lower py_round_le_1 by blast
  show "0 \<le> py_round (recall_of tp fn) 3 \<and> py_round (recall_of tp fn) 3 \<le> 1"
    using r py_round_lower py_round_le_1 by blast
  show "0 \<le> py_round (f1_of (precision_of tp fp) (recall_of tp fn)) 3
         \<and> py_round (f1_of (precision_of tp fp) (recall_of tp fn)) 3 \<le> 1"
    using f py_round_lower py_round_le_1 by blast
  show "0 \<le> py_round (fp_rate_of fp tv) 1 \<and> py_round (fp_rate_of fp tv) 1 \<le> 100"
    using q py_round_lower py_round_le_100 by blast
qed

text \<open>What the function returns when no box is verified.\<close>

lemma calculate_true_metrics_unverified_result:
  assumes "filter is_verified bs = []" "yolo_ok ym"
  shows "calculate_true_metrics bs ym =
     Inr \<lparr> true_positives = 0, false_positives = 0, false_negatives = 0,
           total_verified = 0, precision = 0, recall = 0, f1_score = 0,
           false_positive_rate = 0,
           yolo_avg_confidence = dict_get (avg_confidence ym) 0,
           yolo_box_count = dict_get (box_count ym) 0,
           yolo_fps = dict_get (fps ym) 0 \<rparr>"
  unfolding calculate_true_metrics_unverified [OF assms(1)]
  by (rule TrueMetrics_init_Inr) (simp_all add: assms(2))

text \<open>What the function returns when some box is verified.\<close>

lemma calculate_true_metrics_verified_result:
  assumes "filter is_verified bs \<noteq> []" "yolo_ok ym"
  shows "calculate_true_metrics bs ym =
     Inr \<lparr> true_positives = count_if is_correct (filter is_verified bs),
           false_positives = count_if is_false_positive (filter is_verified bs),
           false_negatives = count_if is_false_negative bs,
           total_verified = int (length (filter is_verified bs)),
           precision = py_round (precision_of (count_if is_correct (filter is_verified bs))
                   (count_if is_false_positive (filter is_verified bs))) 3,
           recall = py_round (recall_of (count_if is_correct (filter is_verified bs))
                   (count_if is_false_negative bs)) 3,
           f1_score = py_round (f1_of
              (precision_of (count_if is_correct (filter is_verified bs))
                   (count_if is_false_positive (filter is_verified bs)))
              (recall_of (count_if is_correct (filter is_verified bs))
                   (count_if is_false_negative bs))) 3,
           false_positive_rate =
              py_round (fp_rate_of (count_if is_false_positive (filter is_verified bs))
                   (int (length (filter is_verified bs)))) 1,
           yolo_avg_confidence = dict_get (avg_confidence ym) 0,
           yolo_box_count = dict_get (box_count ym) 0,
           yolo_fps = dict_get (fps ym) 0 \<rparr>"
  unfolding calculate_true_metrics_verified [OF assms(1)]
  by (rule TrueMetrics_init_Inr)
     (simp_all only: count_if_nonneg of_nat_0_le_iff rounded_rates_in_range assms(2))

lemma calculate_true_metrics_invalid_yolo:
  "\<not> yolo_ok ym \<Longrightarrow> calculate_true_metrics bs ym = Inl ValidationError"
  by (cases "filter is_verified bs = []")
     (simp_all add: calculate_true_metrics_unverified calculate_true_metrics_verified
        TrueMetrics_init_Inl)


subsection \<open>The claims about the true metrics\<close>

text \<open>
  Claim C2, as amended. Whenever \<open>calculate_true_metrics\<close> returns, its \<open>false_negatives\<close> is
  the number of boxes of the whole input list with \<open>is_manual\<close> set and \<open>is_verified\<close> unset
  if at least one box of the list is verified, and 0 if none is: the early return for a list
  without verified boxes reports every count as 0. The function returns exactly when the
  detector metrics satisfy the \<open>TrueMetrics\<close> constraints.
\<close>

theorem false_negatives_after_first_verification:
  "if yolo_ok ym
   then \<exists>m. calculate_true_metrics bs ym = Inr m \<and>
          false_negatives m =
            (if \<exists>b\<in>set bs. is_verified b then count_if is_false_negative bs else 0)
   else calculate_true_metrics bs ym = Inl ValidationError"
proof (cases "yolo_ok ym")
  case False
  then show ?thesis by (simp add: calculate_true_metrics_invalid_yolo)
next
  case True
  show ?thesis
  proof (cases "filter is_verified bs = []")
    case e: True
    then have "\<not> (\<exists>b\<in>set bs. is_verified b)" by (simp add: filter_empty_conv)
    then show ?thesis
      using True by (simp add: calculate_true_metrics_unverified_result [OF e True])
  next
    case ne: False
    then have "\<exists>b\<in>set bs. is_verified b" by (simp add: filter_empty_conv)
    then show ?thesis
      using True by (simp add: calculate_true_metrics_verified_result [OF ne True])
  qed
qed

text \<open>
  Claim C2 as stated fails on a list without verified boxes: for the single manual,
  unverified box, \<open>false_negatives\<close> is 0 while the list has one such box.
\<close>

theorem false_negatives_unverified_counterexample:
  "calculate_true_metrics [example_box ''b_box_1'' False True True] empty_dict = Inr zero_metrics
   \<and> false_negatives zero_metrics = 0
   \<and> count_if is_false_negative [example_box ''b_box_1'' False True True] = 1"
  by (simp add: calculate_true_metrics_def example_box_def empty_dict_def zero_metrics_def
        TrueMetrics_init_def dict_get_def check_valid_metric_def count_if_def
        is_false_negative_def)

text \<open>Claim C2, amended, on the example list: one manual box is still unverified.\<close>

theorem false_negatives_after_first_verification_witness:
  "yolo_ok example_yolo \<and>
   (\<exists>m. calculate_true_metrics example_boxes example_yolo = Inr m \<and> false_negatives m = 1)"
proof -
  have ok: "yolo_ok example_yolo" by (simp add: yolo_ok_def example_yolo_def dict_get_def)
  have v: "\<exists>b\<in>set example_boxes. is_verified b" by (simp add: example_boxes_def example_box_def)
  have c: "count_if is_false_negative example_boxes = 1"
    by (simp add: example_boxes_def example_box_def count_if_def is_false_negative_def)
  show ?thesis
    using false_negatives_after_first_verification [of example_yolo example_boxes] ok v c
    by simp
qed

lemma example_counts:
  "filter is_verified example_boxes \<noteq> []"
  "count_if is_correct (filter is_verified example_boxes) = 2"
  "count_if is_false_positive (filter is_verified example_boxes) = 1"
  "count_if is_false_negative example_boxes = 1"
  "int (length (filter is_verified example_boxes)) = 3"
  by (simp_all add: example_boxes_def example_box_def count_if_def is_false_negative_def
        is_false_positive_def)

lemma example_yolo_ok: "yolo_ok example_yolo"
  by (simp add: yolo_ok_def example_yolo_def dict_get_def)

lemma example_rates:
  "py_round (precision_of 2 1) 3 = to_double (667 / 1000)"
  "py_round (recall_of 2 1) 3 = to_double (667 / 1000)"
  "py_round (f1_of (precision_of 2 1) (recall_of 2 1)) 3 = to_double (667 / 1000)"
  "py_round (fp_rate_of 1 3) 1 = to_double (333 / 10)"
  by code_simp+

lemma example_result:
  "calculate_true_metrics example_boxes example_yolo =
     Inr \<lparr> true_positives = 2, false_positives = 1, false_negatives = 1, total_verified = 3,
           precision = to_double (667 / 1000), recall = to_double (667 / 1000),
           f1_score = to_double (667 / 1000), false_positive_rate = to_double (333 / 10),
           yolo_avg_confidence = 3 / 4, yolo_box_count = 3, yolo_fps = 12 \<rparr>"
  unfolding calculate_true_metrics_verified_result [OF example_counts(1) example_yolo_ok]
    example_counts example_rates
  by (simp add: example_yolo_def dict_get_def)

text \<open>
  Claim C3. For a list with at least one verified box, the returned \<open>true_positives\<close> and
  \<open>false_negatives\<close> are the counts over the input list, and the returned \<open>recall\<close> is the
  float quotient \<open>true_positives / (true_positives + false_negatives)\<close> rounded by \<open>round\<close> to
  3 decimals when that sum is positive; otherwise it is 1 when \<open>true_positives\<close> is positive
  and 0 when it is 0.
\<close>

theorem recall_formula:
  "if yolo_ok ym
   then \<exists>m. calculate_true_metrics bs ym = Inr m \<and>
          ((\<exists>b\<in>set bs. is_verified b) \<longrightarrow>
             true_positives m = count_if is_correct (filter is_verified bs) \<and>
             false_negatives m = count_if is_false_negative bs \<and>
             (if true_positives m + false_negatives m > 0
              then recall m = py_round (int_truediv (true_positives m)
                                          (true_positives m + false_negatives m)) 3
              else recall m = (if true_positives m > 0 then 1 else 0)))
   else calculate_true_metrics bs ym = Inl ValidationError"
proof (cases "yolo_ok ym")
  case False
  then show ?thesis by (simp add: calculate_true_metrics_invalid_yolo)
next
  case True
  show ?thesis
  proof (cases "filter is_verified bs = []")
    case e: True
    then have "\<not> (\<exists>b\<in>set bs. is_verified b)" by (simp add: filter_empty_conv)
    then show ?thesis
      using True by (simp add: calculate_true_metrics_unverified_result [OF e True])
  next
    case ne: False
    have "0 \<le> count_if is_correct (filter is_verified bs)"
      and "0 \<le> count_if is_false_negative bs"
      by (rule count_if_nonneg)+
    then show ?thesis
      using True
      by (simp add: calculate_true_metrics_verified_result [OF ne True] recall_of_def
            py_round_zero py_round_one)
  qed
qed

text \<open>
  Claim C3 on the example list: 2 true positives, 1 false negative, and the recall is the
  float nearest to 0.667.
\<close>

theorem recall_formula_witness:
  "yolo_ok example_yolo \<and> (\<exists>b\<in>set example_boxes. is_verified b) \<and>
   (\<exists>m. calculate_true_metrics example_boxes example_yolo = Inr m \<and>
        true_positives m = 2 \<and> false_negatives m = 1 \<and>
        recall m = py_round (int_truediv 2 3) 3 \<and> recall m = to_double (667 / 1000))"
proof -
  have v: "\<exists>b\<in>set example_boxes. is_verified b" by (simp add: example_boxes_def example_box_def)
  show ?thesis
    using recall_formula [of example_yolo example_boxes] example_yolo_ok v
    by (simp add: example_result)
qed

text \<open>
  One correct detection and 79 pending manual boxes: the float quotient \<open>1 / 80\<close> lies just
  above 0.0125, so the recall is the float nearest to 0.013.
\<close>

lemma recall_above_tie:
  "map_sum id recall
     (calculate_true_metrics
        (example_box ''a_box_0'' True True False
           # replicate 79 (example_box ''a_box_1'' False True True)) example_yolo)
   = Inr (to_double (13 / 1000))"
  by code_simp

text \<open>
  Claim C6. The returned \<open>precision\<close>, \<open>recall\<close> and \<open>f1_score\<close> lie in \<open>[0, 1]\<close> and the
  returned \<open>false_positive_rate\<close> in \<open>[0, 100]\<close>; the computed rates never make the
  \<open>TrueMetrics\<close> constructor raise, only invalid detector metrics do.
\<close>

theorem rates_in_range:
  "if yolo_ok ym
   then \<exists>m. calculate_true_metrics bs ym = Inr m \<and>
          0 \<le> precision m \<and> precision m \<le> 1 \<and> 0 \<le> recall m \<and> recall m \<le> 1 \<and>
          0 \<le> f1_score m \<and> f1_score m \<le> 1 \<and>
          0 \<le> false_positive_rate m \<and> false_positive_rate m \<le> 100
   else calculate_true_metrics bs ym = Inl ValidationError"
proof (cases "yolo_ok ym")
  case False
  then show ?thesis by (simp add: calculate_true_metrics_invalid_yolo)
next
  case True
  show ?thesis
  proof (cases "filter is_verified bs = []")
    case e: True
    then show ?thesis
      using True by (simp add: calculate_true_metrics_unverified_result [OF e True])
  next
    case ne: False
    show ?thesis
      using True rounded_rates_in_range [of bs]
      by (simp add: calculate_true_metrics_verified_result [OF ne True])
  qed
qed

text \<open>Claim C6 on the example list.\<close>

theorem rates_in_range_witness:
  "yolo_ok example_yolo \<and>
   (\<exists>m. calculate_true_metrics example_boxes example_yolo = Inr m \<and>
        precision m = to_double (667 / 1000) \<and> 0 \<le> precision m \<and> precision m \<le> 1 \<and>
        0 \<le> recall m \<and> recall m \<le> 1 \<and> 0 \<le> f1_score m \<and> f1_score m \<le> 1 \<and>
        0 \<le> false_positive_rate m \<and> false_positive_rate m \<le> 100)"
  using rates_in_range [of example_yolo example_boxes] example_yolo_ok
  by (simp add: example_result)

text \<open>
  Claim C10. In the returned metrics, \<open>true_positives + false_positives \<le> total_verified\<close>.
\<close>

theorem counted_boxes_le_total_verified:
  "if yolo_ok ym
   then \<exists>m. calculate_true_metrics bs ym = Inr m \<and>
          true_positives m + false_positives m \<le> total_verified m
   else calculate_true_metrics bs ym = Inl ValidationError"
proof (cases "yolo_ok ym")
  case False
  then show ?thesis by (simp add: calculate_true_metrics_invalid_yolo)
next
  case True
  show ?thesis
  proof (cases "filter is_verified bs = []")
    case e: True
    then show ?thesis
      using True by (simp add: calculate_true_metrics_unverified_result [OF e True])
  next
    case ne: False
    then show ?thesis
      using True
      by (simp add: calculate_true_metrics_verified_result [OF ne True] tp_fp_le_verified)
  qed
qed

lemma manual_incorrect_result:
  "calculate_true_metrics [example_box ''a_box_0'' True False True] example_yolo =
     Inr \<lparr> true_positives = 0, false_positives = 0, false_negatives = 0, total_verified = 1,
           precision = 0, recall = 0, f1_score = 0, false_positive_rate = 0,
           yolo_avg_confidence = 3 / 4, yolo_box_count = 3, yolo_fps = 12 \<rparr>"
  by code_simp

text \<open>
  Claim C10 on a single verified box that is manual and marked incorrect: it is counted in
  \<open>total_verified\<close> and in neither \<open>true_positives\<close> nor \<open>false_positives\<close>.
\<close>

theorem counted_boxes_le_total_verified_witness:
  "yolo_ok example_yolo \<and>
   (\<exists>m. calculate_true_metrics [example_box ''a_box_0'' True False True] example_yolo = Inr m \<and>
        true_positives m = 0 \<and> false_positives m = 0 \<and> total_verified m = 1 \<and>
        true_positives m + false_positives m \<le> total_verified m)"
  using counted_boxes_le_total_verified [of example_yolo "[example_box ''a_box_0'' True False True]"]
    example_yolo_ok
  by (simp add: manual_incorrect_result)


section \<open>Properties of box identifiers\<close>


lemma digit_char_props:
  assumes "d < 10"
  shows "is_digit (digit_char d)" and "digit_value (digit_char d) = d"
  using assms by (simp_all add: is_digit_def digit_value_def digit_char_def)

lemma is_digit_not_special:
  assumes "is_digit c"
  shows "c \<noteq> CHR ''_''" and "c \<noteq> CHR ''-''" and "c \<noteq> CHR ''+''" and "\<not> int_isspace c"
  using assms by (auto simp add: is_digit_def int_isspace_def)

lemma str_nat_digits: "c \<in> set (str_nat n) \<Longrightarrow> is_digit c"
proof (induction n arbitrary: c rule: str_nat.induct)
  case (1 n)
  show ?case
  proof (cases "n < 10")
    case True
    with "1.prems" show ?thesis by (simp add: str_nat.simps [of n] digit_char_props)
  next
    case False
    with "1.prems" "1.IH" show ?thesis
      by (auto simp add: str_nat.simps [of n] digit_char_props)
  qed
qed

lemma str_nat_nonempty: "str_nat n \<noteq> []"
  by (simp add: str_nat.simps [of n])

lemma int_digits_digit:
  "is_digit c \<Longrightarrow> int_digits acc (c # cs) = int_digits (10 * acc + digit_value c) cs"
  by simp

lemma int_digits_str_nat:
  "int_digits acc (str_nat n @ ys) = int_digits (acc * 10 ^ length (str_nat n) + n) ys"
proof (induction n arbitrary: acc ys rule: str_nat.induct)
  case (1 n)
  show ?case
  proof (cases "n < 10")
    case True
    then show ?thesis
      by (simp add: str_nat.simps [of n] digit_char_props mult.commute)
  next
    case False
    have d: "n mod 10 < 10" by simp
    have "int_digits acc (str_nat n @ ys) =
          int_digits acc (str_nat (n div 10) @ (digit_char (n mod 10) # ys))"
      using False by (simp add: str_nat.simps [of n])
    also have "\<dots> = int_digits (acc * 10 ^ length (str_nat (n div 10)) + n div 10)
                      (digit_char (n mod 10) # ys)"
      using False by (rule "1.IH")
    also have "\<dots> = int_digits (10 * (acc * 10 ^ length (str_nat (n div 10)) + n div 10)
                         + n mod 10) ys"
      by (simp only: int_digits_digit [OF digit_char_props(1) [OF d]] digit_char_props(2) [OF d])
    also have "10 * (acc * 10 ^ length (str_nat (n div 10)) + n div 10) + n mod 10 =
               acc * 10 ^ length (str_nat n) + n"
      using False by (simp add: str_nat.simps [of n] algebra_simps)
    finally show ?thesis .
  qed
qed

lemma int_literal_str_nat: "int_literal (str_nat n) = Some n"
proof -
  obtain c cs where s: "str_nat n = c # cs"
    using str_nat_nonempty [of n] by (cases "str_nat n") auto
  then have dc: "is_digit c" using str_nat_digits [of c n] by simp
  have "int_literal (str_nat n) = int_digits 0 (str_nat n @ [])"
    using s dc by (simp add: int_literal_def)
  also have "\<dots> = Some n"
    by (simp only: int_digits_str_nat) simp
  finally show ?thesis .
qed

lemma int_strip_id:
  assumes "s \<noteq> []" "\<not> int_isspace (hd s)" "\<not> int_isspace (last s)"
  shows "int_strip s = s"
proof -
  have 1: "dropWhile int_isspace s = s" using assms(1,2) by (cases s) auto
  have "rev s \<noteq> []" "\<not> int_isspace (hd (rev s))" using assms(1,3) by (simp_all add: hd_rev)
  then have 2: "dropWhile int_isspace (rev s) = rev s" by (cases "rev s") auto
  show ?thesis by (simp add: int_strip_def 1 2)
qed

lemma last_str_nat_digit: "is_digit (last (str_nat n))"
  using str_nat_digits [of "last (str_nat n)" n] str_nat_nonempty [of n] by simp

lemma hd_str_nat_digit: "is_digit (hd (str_nat n))"
  using str_nat_digits [of "hd (str_nat n)" n] str_nat_nonempty [of n] by simp

lemma py_int_py_str: "py_int (py_str i) = Inr i"
proof (cases "i < 0")
  case True
  have m: "\<not> int_isspace CHR ''-''" by (simp add: int_isspace_def)
  have "int_strip (CHR ''-'' # str_nat (nat (- i))) = CHR ''-'' # str_nat (nat (- i))"
    by (rule int_strip_id)
       (simp_all add: str_nat_nonempty last_str_nat_digit is_digit_not_special m)
  then show ?thesis
    using True by (simp add: py_int_def py_str_def signed_literal_def int_literal_str_nat)
next
  case False
  obtain c cs where s: "str_nat (nat i) = c # cs"
    using str_nat_nonempty [of "nat i"] by (cases "str_nat (nat i)") auto
  then have dc: "is_digit c" using str_nat_digits [of c "nat i"] by simp
  have "int_strip (str_nat (nat i)) = str_nat (nat i)"
    by (rule int_strip_id)
       (simp_all add: str_nat_nonempty last_str_nat_digit hd_str_nat_digit is_digit_not_special)
  moreover have "signed_literal (str_nat (nat i)) = map_option int (int_literal (str_nat (nat i)))"
    using is_digit_not_special [OF dc] by (simp add: signed_literal_def s)
  ultimately show ?thesis
    using False by (simp add: py_int_def py_str_def int_literal_str_nat)
qed

lemma py_str_no_underscore: "CHR ''_'' \<notin> set (py_str i)"
  using is_digit_not_special(1) str_nat_digits by (auto simp add: py_str_def)

lemma starts_with_set: "starts_with s p \<Longrightarrow> set p \<subseteq> set s"
  by (induction s p rule: starts_with.induct) auto

lemma starts_with_append: "starts_with (p @ s) p"
  by (induction p) auto

lemma py_in_set: "py_in sep s \<Longrightarrow> sep \<noteq> [] \<Longrightarrow> set sep \<subseteq> set s"
proof (induction s)
  case Nil
  then show ?case by (cases sep) auto
next
  case (Cons c cs)
  then show ?case using starts_with_set [of "c # cs" sep] by auto
qed

lemma rsplit_last_None: "(rsplit_last sep s = None) = (\<not> py_in sep s)"
  by (induction s) (auto split: option.splits)

lemma py_in_append: "py_in sep (xs @ sep @ ds)"
proof (induction xs)
  case Nil
  show ?case using starts_with_append [of sep ds] by (cases "sep @ ds") auto
next
  case (Cons x xs)
  then show ?case by simp
qed

lemma rsplit_last_append:
  assumes "sep \<noteq> []" "\<not> py_in sep (tl (sep @ ds))"
  shows "rsplit_last sep (xs @ sep @ ds) = Some (xs, ds)"
proof (induction xs)
  case Nil
  obtain c cs where s: "sep @ ds = c # cs" using assms(1) by (cases "sep @ ds") auto
  then have "rsplit_last sep cs = None" using assms(2) by (simp add: rsplit_last_None)
  moreover have "starts_with (c # cs) sep" using starts_with_append [of sep ds] s by simp
  moreover have "drop (length sep) (c # cs) = ds" using s [symmetric] by simp
  ultimately show ?case using s by simp
next
  case (Cons x xs)
  then show ?case by simp
qed

lemma no_separator_in_tail:
  assumes "CHR ''_'' \<notin> set ds"
  shows "\<not> py_in ''_box_'' (tl (''_box_'' @ ds))"
proof -
  have a: "\<not> py_in ''_box_'' ds" using py_in_set [of "''_box_''" ds] assms by auto
  have b: "\<not> starts_with ds ''box_''" using starts_with_set [of ds "''box_''"] assms by auto
  show ?thesis using a b by simp
qed

lemma rsplit_format_box_id:
  "py_rsplit1 (format_box_id iid i) ''_box_'' = [iid, py_str i]"
proof -
  have "rsplit_last ''_box_'' (iid @ ''_box_'' @ py_str i) = Some (iid, py_str i)"
    by (rule rsplit_last_append) (simp, rule no_separator_in_tail, rule py_str_no_underscore)
  then show ?thesis by (simp add: py_rsplit1_def format_box_id_def)
qed

text \<open>
  The last occurrence of the separator in a formatted identifier is the one that the
  formatting wrote, whatever the image identifier contains.
\<close>

lemma parse_format_box_id: "parse_box_id (format_box_id iid i) = Inr (Some (iid, i))"
proof -
  have "py_in ''_box_'' (format_box_id iid i)"
    unfolding format_box_id_def by (rule py_in_append)
  then show ?thesis
    by (simp add: parse_box_id_def rsplit_format_box_id py_int_py_str)
qed

text \<open>
  Claim C4. For an image identifier without the substring \<open>_box_\<close> and a non-negative
  index, parsing the formatted identifier (split at the last \<open>_box_\<close>, \<open>int\<close> of the
  trailing segment) gives back the image identifier and the index.
\<close>

theorem box_id_round_trip:
  "\<not> py_in ''_box_'' iid \<Longrightarrow> 0 \<le> i \<Longrightarrow> parse_box_id (format_box_id iid i) = Inr (Some (iid, i))"
  by (rule parse_format_box_id)

text \<open>Claim C4 on the image identifier \<open>img_7\<close> and the index 12.\<close>

theorem box_id_round_trip_witness:
  "\<not> py_in ''_box_'' ''img_7'' \<and> (0::int) \<le> 12 \<and> format_box_id ''img_7'' 12 = ''img_7_box_12'' \<and>
   parse_box_id ''img_7_box_12'' = Inr (Some (''img_7'', 12))"
proof -
  have a: "\<not> py_in ''_box_'' ''img_7''" by simp
  have b: "(0::int) \<le> 12" by simp
  have c: "format_box_id ''img_7'' 12 = ''img_7_box_12''" by code_simp
  show ?thesis using box_id_round_trip [OF a b] a c by simp
qed



section \<open>Properties of the validation router\<close>

subsection \<open>Corrections\<close>

lemma apply_validation_idem: "apply_validation v (apply_validation v b) = apply_validation v b"
  by (simp add: apply_validation_def split: option.splits)

lemma apply_validation_box_id: "box_id (apply_validation v b) = box_id b"
  by (simp add: apply_validation_def)

text \<open>The correction of a box assigns neither \<open>verified_at\<close> nor \<open>is_manual\<close>.\<close>

lemma apply_validation_untouched:
  "verified_at (apply_validation v b) = verified_at b \<and>
   is_manual (apply_validation v b) = is_manual b"
  by (simp add: apply_validation_def)

lemma update_boxes_idem: "update_boxes v (update_boxes v bs) = update_boxes v bs"
  by (induction bs) (simp_all add: apply_validation_idem apply_validation_box_id)

lemma update_images_idem: "update_images iid v (update_images iid v imgs) = update_images iid v imgs"
  by (induction imgs) (simp_all add: update_boxes_idem)

lemma update_boxes_first:
  "\<forall>x\<in>set pre. box_id x \<noteq> Some (v_box_id v) \<Longrightarrow> box_id b = Some (v_box_id v) \<Longrightarrow>
   update_boxes v (pre @ b # post) = pre @ apply_validation v b # post"
  by (induction pre) simp_all

lemma update_boxes_none:
  "\<forall>x\<in>set bs. box_id x \<noteq> Some (v_box_id v) \<Longrightarrow> update_boxes v bs = bs"
  by (induction bs) simp_all

lemma update_images_first:
  "\<forall>x\<in>set ipre. image_id x \<noteq> iid \<Longrightarrow> image_id img = iid \<Longrightarrow>
   update_images iid v (ipre @ img # ipost) =
     ipre @ img\<lparr> boxes := update_boxes v (boxes img) \<rparr> # ipost"
  by (induction ipre) simp_all


lemma update_images_yolo: "map yolo_metrics (update_images iid v imgs) = map yolo_metrics imgs"
  by (induction imgs) simp_all

lemma session_yolo_metrics_map:
  "map yolo_metrics imgs' = map yolo_metrics imgs \<Longrightarrow>
   session_yolo_metrics imgs' = session_yolo_metrics imgs"
proof -
  assume a: "map yolo_metrics imgs' = map yolo_metrics imgs"
  then have e: "(imgs' = []) = (imgs = [])" by (metis map_is_Nil_conv)
  show ?thesis
  proof (cases "imgs = []")
    case True
    then show ?thesis using e by (simp add: session_yolo_metrics_def)
  next
    case False
    then have "yolo_metrics (last imgs') = yolo_metrics (last imgs)"
      using a e by (metis last_map)
    then show ?thesis using False e by (simp add: session_yolo_metrics_def)
  qed
qed

lemma validate_one_yolo:
  "validate_one v imgs = Inr imgs' \<Longrightarrow> map yolo_metrics imgs' = map yolo_metrics imgs"
  by (auto simp add: validate_one_def update_images_yolo split: sum.splits option.splits)

lemma validate_one_idem:
  "validate_one v imgs = Inr imgs' \<Longrightarrow> validate_one v imgs' = Inr imgs'"
  by (auto simp add: validate_one_def update_images_idem split: sum.splits option.splits)




text \<open>
  What a matching correction does: in the first image with the parsed identifier, the first
  box with the exact identifier is replaced by its corrected version; nothing else changes.
\<close>

lemma validate_one_matching:
  "parse_box_id (v_box_id v) = Inr (Some (iid, k)) \<Longrightarrow>
   \<forall>x\<in>set ipre. image_id x \<noteq> iid \<Longrightarrow> image_id img = iid \<Longrightarrow>
   boxes img = pre @ b # post \<Longrightarrow>
   \<forall>x\<in>set pre. box_id x \<noteq> Some (v_box_id v) \<Longrightarrow> box_id b = Some (v_box_id v) \<Longrightarrow>
   validate_one v (ipre @ img # ipost) =
     Inr (ipre @ img\<lparr> boxes := pre @ apply_validation v b # post \<rparr> # ipost)"
  by (simp add: validate_one_def update_images_first update_boxes_first)

lemma apply_validations_append:
  "apply_validations (xs @ ys) imgs =
     (case apply_validations xs imgs of Inl e \<Rightarrow> Inl e | Inr imgs' \<Rightarrow> apply_validations ys imgs')"
  by (induction xs arbitrary: imgs) (simp_all split: sum.splits)

lemma apply_validations_twice:
  "apply_validations [v, v] imgs = apply_validations [v] imgs"
  by (auto simp add: validate_one_idem split: sum.splits)

lemma apply_validations_repeat:
  "apply_validations (vs @ [v, v] @ ws) imgs = apply_validations (vs @ [v] @ ws) imgs"
proof -
  have "apply_validations ([v, v] @ ws) imgs' = apply_validations ([v] @ ws) imgs'" for imgs'
    by (simp only: apply_validations_append [of "[v, v]"] apply_validations_append [of "[v]"]
          apply_validations_twice)
  then show ?thesis by (simp only: apply_validations_append [of vs])
qed

lemma apply_validations_yolo:
  "apply_validations vs imgs = Inr imgs' \<Longrightarrow> map yolo_metrics imgs' = map yolo_metrics imgs"
proof (induction vs arbitrary: imgs)
  case Nil
  then show ?case by simp
next
  case (Cons v vs)
  then obtain mid where m: "validate_one v imgs = Inr mid" and r: "apply_validations vs mid = Inr imgs'"
    by (auto split: sum.splits)
  show ?case using Cons.IH [OF r] validate_one_yolo [OF m] by simp
qed

lemma apply_validations_last_idem:
  assumes "apply_validations (vs @ [v]) imgs = Inr imgs'"
  shows "validate_one v imgs' = Inr imgs'"
proof -
  from assms obtain mid where "validate_one v mid = Inr imgs'"
    by (auto simp add: apply_validations_append split: sum.splits)
  then show ?thesis by (rule validate_one_idem)
qed


text \<open>Whenever the endpoint fails, the store is the one it was called with.\<close>

lemma validate_detections_error_store:
  "fst (validate_detections vsid st sid0 vs) = Inl e \<Longrightarrow> snd (validate_detections vsid st sid0 vs) = st"
  by (auto simp add: validate_detections_def split: sum.splits option.splits prod.splits)



text \<open>The steps of a successful run on a loaded document.\<close>

lemma validate_loaded_Inr:
  assumes "validate_loaded sid sd vs = Inr (sd', resp)"
  obtains loaded imgs all_boxes tm where
    "parse_boxes (all_boxes_of (images sd)) = Inr loaded"
    "apply_validations vs (images sd) = Inr imgs"
    "parse_boxes (all_boxes_of imgs) = Inr all_boxes"
    "calculate_true_metrics all_boxes (session_yolo_metrics (images sd)) = Inr tm"
    "sd' = sd\<lparr> images := imgs, true_metrics := Some tm \<rparr>"
    "resp = \<lparr> resp_session_id = sid, metrics = tm,
                verified_count = count_if is_verified all_boxes,
                total_images = int (length imgs),
                total_boxes = int (length all_boxes) \<rparr>"
  using assms by (auto simp add: validate_loaded_def Let_def split: sum.splits)





text \<open>
  The separators \<open>0x1c\<close> to \<open>0x1f\<close> are whitespace for \<open>str.strip\<close> but not for \<open>int\<close>: an
  identifier whose trailing segment starts with one is refused.
\<close>

lemma separator_character_refused:
  "parse_box_id (''zz_box_'' @ [CHR 0x1C, CHR ''1'']) = Inl (ValueError [CHR 0x1C, CHR ''1''])"
  by code_simp


text \<open>After a successful batch, the empty batch changes nothing and answers the same.\<close>

lemma validate_loaded_settled:
  assumes "validate_loaded sid sd vs = Inr (sd', resp)"
  shows "validate_loaded sid sd' [] = Inr (sd', resp)"
proof -
  from assms obtain loaded imgs all_boxes tm where
    ap: "apply_validations vs (images sd) = Inr imgs" and
    pb: "parse_boxes (all_boxes_of imgs) = Inr all_boxes" and
    tm: "calculate_true_metrics all_boxes (session_yolo_metrics (images sd)) = Inr tm" and
    sd': "sd' = sd\<lparr> images := imgs, true_metrics := Some tm \<rparr>" and
    resp: "resp = \<lparr> resp_session_id = sid, metrics = tm,
                     verified_count = count_if is_verified all_boxes,
                     total_images = int (length imgs),
                     total_boxes = int (length all_boxes) \<rparr>"
    by (rule validate_loaded_Inr)
  have y: "session_yolo_metrics imgs = session_yolo_metrics (images sd)"
    by (rule session_yolo_metrics_map) (rule apply_validations_yolo [OF ap])
  show ?thesis
    by (simp add: validate_loaded_def Let_def sd' resp y pb tm)
qed

text \<open>After a batch that ended with a correction, that correction at the head of the next
  batch changes nothing.\<close>

lemma validate_loaded_resend:
  assumes "validate_loaded sid sd (vs @ [c]) = Inr (sd', resp)"
  shows "validate_loaded sid sd' (c # ws) = validate_loaded sid sd' ws"
proof -
  from assms obtain loaded imgs all_boxes tm where
    ap: "apply_validations (vs @ [c]) (images sd) = Inr imgs" and
    sd': "sd' = sd\<lparr> images := imgs, true_metrics := Some tm \<rparr>"
    by (rule validate_loaded_Inr)
  have "validate_one c imgs = Inr imgs" by (rule apply_validations_last_idem [OF ap])
  then have "apply_validations (c # ws) (images sd') = apply_validations ws (images sd')"
    by (simp add: sd')
  then show ?thesis by (simp only: validate_loaded_def)
qed

lemma validate_detections_resend:
  assumes "validate_detections vsid st sid0 (vs @ [c]) = (Inr resp, st')"
  shows "validate_detections vsid st' sid0 [c] = (Inr resp, st')"
    and "validate_detections vsid st' sid0 (c # ws) = validate_detections vsid st' sid0 ws"
proof -
  from assms obtain sid sd sd' where
    sid: "vsid sid0 = Inr sid" and sd: "st sid = Some sd" and
    ok: "validate_loaded sid sd (vs @ [c]) = Inr (sd', resp)" and
    st': "st' = st(sid \<mapsto> sd')"
    by (auto simp add: validate_detections_def split: sum.splits option.splits prod.splits)
  have l: "st' sid = Some sd'" by (simp add: st')
  have r: "validate_loaded sid sd' (c # ws') = validate_loaded sid sd' ws'" for ws'
    by (rule validate_loaded_resend [OF ok])
  have s: "validate_loaded sid sd' [] = Inr (sd', resp)"
    by (rule validate_loaded_settled [OF ok])
  have "st'(sid \<mapsto> sd') = st'" using l by (simp add: fun_upd_idem)
  then show "validate_detections vsid st' sid0 [c] = (Inr resp, st')"
    by (simp add: validate_detections_def sid l r s)
  show "validate_detections vsid st' sid0 (c # ws) = validate_detections vsid st' sid0 ws"
    by (simp add: validate_detections_def sid l r)
qed

lemma validate_detections_repeat:
  "validate_detections vsid st sid0 (vs @ [c, c] @ ws)
     = validate_detections vsid st sid0 (vs @ [c] @ ws)"
  by (simp only: validate_detections_def validate_loaded_def apply_validations_repeat)

text \<open>Two corrections of the same box, one after the other.\<close>

lemma apply_validations_two_matching:
  assumes "parse_box_id (v_box_id u) = Inr (Some (iid, k))" "v_box_id w = v_box_id u"
    "\<forall>x\<in>set ipre. image_id x \<noteq> iid" "image_id img = iid" "boxes img = pre @ b # post"
    "\<forall>x\<in>set pre. box_id x \<noteq> Some (v_box_id u)" "box_id b = Some (v_box_id u)"
  shows "apply_validations [u, w] (ipre @ img # ipost) =
     Inr (ipre @ img\<lparr> boxes := pre @ apply_validation w (apply_validation u b) # post \<rparr> # ipost)"
proof -
  let ?img1 = "img\<lparr> boxes := pre @ apply_validation u b # post \<rparr>"
  have 1: "validate_one u (ipre @ img # ipost) = Inr (ipre @ ?img1 # ipost)"
    by (rule validate_one_matching [OF assms(1) assms(3) assms(4) assms(5) assms(6) assms(7)])
  have pw: "parse_box_id (v_box_id w) = Inr (Some (iid, k))" using assms(1,2) by simp
  have 2: "validate_one w (ipre @ ?img1 # ipost) =
             Inr (ipre @ ?img1\<lparr> boxes := pre @ apply_validation w (apply_validation u b) # post \<rparr>
                    # ipost)"
    by (rule validate_one_matching [OF pw assms(3)])
       (simp_all add: assms apply_validation_box_id)
  show ?thesis by (simp add: 1 2)
qed

lemma apply_validation_twice_fields:
  "is_verified (apply_validation w (apply_validation u b))"
  "is_correct (apply_validation w (apply_validation u b)) = v_is_correct w"
  "confidence (apply_validation w (apply_validation u b)) =
     (case confidence_override w of
        Some x \<Rightarrow> x
      | None \<Rightarrow> (case confidence_override u of Some x \<Rightarrow> x | None \<Rightarrow> confidence b))"
  "box_notes (apply_validation w (apply_validation u b)) =
     (if truthy (v_notes w) then v_notes w
      else if truthy (v_notes u) then v_notes u else box_notes b)"
  by (simp_all add: apply_validation_def split: option.splits)

text \<open>
  Claim C5, as amended. A correction that occurs twice in a row in a batch has the effect
  of occurring once, and a correction sent again at the head of the next batch, after a
  batch that ended with it, changes nothing: the stored session and the response are the
  same. Two corrections of the same box leave it with \<open>is_verified\<close> set and \<open>is_correct\<close> of
  the later one; its confidence is the \<open>confidence_override\<close> of the later one if supplied,
  else that of the earlier one if supplied, else the value before both, and its notes
  likewise for notes that are supplied and not empty.
\<close>

theorem reapplying_correction_idempotent:
  "validate_detections vsid st sid0 (vs @ [c, c] @ ws)
     = validate_detections vsid st sid0 (vs @ [c] @ ws)
   \<and> (validate_detections vsid st sid0 (vs @ [c]) = (Inr resp, st') \<longrightarrow>
        validate_detections vsid st' sid0 [c] = (Inr resp, st') \<and>
        validate_detections vsid st' sid0 (c # ws) = validate_detections vsid st' sid0 ws)
   \<and> (parse_box_id (v_box_id u) = Inr (Some (iid, k)) \<and> v_box_id w = v_box_id u \<and>
        (\<forall>x\<in>set ipre. image_id x \<noteq> iid) \<and> image_id img = iid \<and> boxes img = pre @ b # post \<and>
        (\<forall>x\<in>set pre. box_id x \<noteq> Some (v_box_id u)) \<and> box_id b = Some (v_box_id u) \<longrightarrow>
        apply_validations [u, w] (ipre @ img # ipost) =
          Inr (ipre @ img\<lparr> boxes := pre @ apply_validation w (apply_validation u b) # post \<rparr>
                 # ipost))
   \<and> is_verified (apply_validation w (apply_validation u b))
   \<and> is_correct (apply_validation w (apply_validation u b)) = v_is_correct w
   \<and> confidence (apply_validation w (apply_validation u b)) =
        (case confidence_override w of
           Some x \<Rightarrow> x
         | None \<Rightarrow> (case confidence_override u of Some x \<Rightarrow> x | None \<Rightarrow> confidence b))
   \<and> box_notes (apply_validation w (apply_validation u b)) =
        (if truthy (v_notes w) then v_notes w
         else if truthy (v_notes u) then v_notes u else box_notes b)"
proof (intro conjI impI)
  show "validate_detections vsid st sid0 (vs @ [c, c] @ ws)
          = validate_detections vsid st sid0 (vs @ [c] @ ws)"
    by (rule validate_detections_repeat)
next
  assume a: "validate_detections vsid st sid0 (vs @ [c]) = (Inr resp, st')"
  show "validate_detections vsid st' sid0 [c] = (Inr resp, st')"
    by (rule validate_detections_resend(1) [OF a])
  show "validate_detections vsid st' sid0 (c # ws) = validate_detections vsid st' sid0 ws"
    by (rule validate_detections_resend(2) [OF a])
next
  assume "parse_box_id (v_box_id u) = Inr (Some (iid, k)) \<and> v_box_id w = v_box_id u \<and>
        (\<forall>x\<in>set ipre. image_id x \<noteq> iid) \<and> image_id img = iid \<and> boxes img = pre @ b # post \<and>
        (\<forall>x\<in>set pre. box_id x \<noteq> Some (v_box_id u)) \<and> box_id b = Some (v_box_id u)"
  then show "apply_validations [u, w] (ipre @ img # ipost) =
          Inr (ipre @ img\<lparr> boxes := pre @ apply_validation w (apply_validation u b) # post \<rparr>
                 # ipost)"
    using apply_validations_two_matching [of u iid k w ipre img pre b post ipost] by blast
qed (rule apply_validation_twice_fields)+


text \<open>
  Claim C5, amended, on the stored example session: \<open>first_review\<close> supplies a confidence
  and notes, \<open>second_review\<close> supplies neither, and both correct the box \<open>a_box_0\<close>.
\<close>

theorem reapplying_correction_idempotent_witness:
  "validate_detections accept_all store_s1 ''s1'' ([second_review] @ [first_review, first_review] @ [second_review])
     = validate_detections accept_all store_s1 ''s1'' ([second_review] @ [first_review] @ [second_review])
   \<and> validate_detections accept_all
        (snd (validate_detections accept_all store_s1 ''s1'' ([second_review] @ [first_review])))
        ''s1'' [first_review]
      = validate_detections accept_all store_s1 ''s1'' ([second_review] @ [first_review])
   \<and> parse_box_id (v_box_id first_review) = Inr (Some (''a'', 0))
   \<and> v_box_id second_review = v_box_id first_review
   \<and> apply_validations [first_review, second_review] [image_a] =
       Inr [image_a\<lparr> boxes := apply_validation second_review
                                 (apply_validation first_review (detected_box ''a_box_0''))
                               # [detected_box ''a_box_1'', detected_box ''a_box_2''] \<rparr>]
   \<and> confidence (apply_validation second_review
                    (apply_validation first_review (detected_box ''a_box_0''))) = 1 / 2
   \<and> box_notes (apply_validation second_review
                    (apply_validation first_review (detected_box ''a_box_0''))) = Some ''checked''
   \<and> is_correct (apply_validation second_review
                    (apply_validation first_review (detected_box ''a_box_0''))) = False"
proof -
  let ?b1 = "[second_review] @ [first_review]"
  let ?box = "apply_validation second_review
                (apply_validation first_review (detected_box ''a_box_0''))"
  obtain r st' where run: "validate_detections accept_all store_s1 ''s1'' ?b1 = (r, st')"
    by (cases "validate_detections accept_all store_s1 ''s1'' ?b1")
  have "isl (fst (validate_detections accept_all store_s1 ''s1'' ?b1)) = False"
    by code_simp
  then have "\<not> isl r" using run by simp
  then obtain resp where r: "r = Inr resp" by (cases r) simp_all
  have run': "validate_detections accept_all store_s1 ''s1'' ?b1 = (Inr resp, st')"
    using run r by simp
  have p: "parse_box_id (v_box_id first_review) = Inr (Some (''a'', 0))" by code_simp
  have e: "v_box_id second_review = v_box_id first_review"
    by (simp add: first_review_def second_review_def correction_def)
  have hyp: "parse_box_id (v_box_id first_review) = Inr (Some (''a'', 0))
        \<and> v_box_id second_review = v_box_id first_review
        \<and> (\<forall>x\<in>set []. image_id x \<noteq> ''a'') \<and> image_id image_a = ''a''
        \<and> boxes image_a = [] @ detected_box ''a_box_0''
                             # [detected_box ''a_box_1'', detected_box ''a_box_2'']
        \<and> (\<forall>x\<in>set []. box_id x \<noteq> Some (v_box_id first_review))
        \<and> box_id (detected_box ''a_box_0'') = Some (v_box_id first_review)"
    using p e
    by (simp add: image_a_def detected_box_def example_box_def first_review_def correction_def)
  note t = reapplying_correction_idempotent
      [of accept_all store_s1 "''s1''" "[second_review]" first_review "[second_review]"
          resp st' first_review "''a''" 0 second_review "[]" image_a "[]"
          "detected_box ''a_box_0''" "[detected_box ''a_box_1'', detected_box ''a_box_2'']" "[]"]
  have g1: "validate_detections accept_all store_s1 ''s1''
              ([second_review] @ [first_review, first_review] @ [second_review])
            = validate_detections accept_all store_s1 ''s1''
              ([second_review] @ [first_review] @ [second_review])"
    using t by blast
  have "validate_detections accept_all st' ''s1'' [first_review] = (Inr resp, st')"
    using t run' by blast
  then have g2: "validate_detections accept_all
        (snd (validate_detections accept_all store_s1 ''s1'' ?b1)) ''s1'' [first_review]
      = validate_detections accept_all store_s1 ''s1'' ?b1"
    by (simp only: run' snd_conv)
  have "apply_validations [first_review, second_review] ([] @ image_a # []) =
          Inr ([] @ image_a\<lparr> boxes := [] @ ?box
                     # [detected_box ''a_box_1'', detected_box ''a_box_2''] \<rparr> # [])"
    using t hyp by blast
  then have g5: "apply_validations [first_review, second_review] [image_a] =
       Inr [image_a\<lparr> boxes := ?box # [detected_box ''a_box_1'', detected_box ''a_box_2''] \<rparr>]"
    by (simp only: append_Nil)
  have f: "confidence_override second_review = None"
    "confidence_override first_review = Some (1 / 2)"
    "truthy (v_notes second_review) = False" "truthy (v_notes first_review) = True"
    "v_notes first_review = Some ''checked''" "v_is_correct second_review = False"
    by (simp_all add: first_review_def second_review_def correction_def truthy_def)
  have "confidence ?box =
        (case confidence_override second_review of
           Some x \<Rightarrow> x
         | None \<Rightarrow> (case confidence_override first_review of
                       Some x \<Rightarrow> x | None \<Rightarrow> confidence (detected_box ''a_box_0'')))"
    using t by blast
  then have g6: "confidence ?box = 1 / 2" by (simp add: f)
  have "box_notes ?box =
        (if truthy (v_notes second_review) then v_notes second_review
         else if truthy (v_notes first_review) then v_notes first_review
              else box_notes (detected_box ''a_box_0''))"
    using t by blast
  moreover have "v_notes second_review = None" "v_notes first_review = Some ''checked''"
    by (simp_all add: first_review_def second_review_def correction_def)
  ultimately have g7: "box_notes ?box = Some ''checked''" by (simp add: truthy_def)
  have "is_correct ?box = v_is_correct second_review" using t by blast
  then have g8: "is_correct ?box = False" by (simp add: f)
  show ?thesis
    using g1 g2 p e g5 g6 g7 g8 by blast
qed

text \<open>
  Claim C5 as stated fails in its second half: with the same last correction for
  \<open>a_box_0\<close>, the final confidence and notes differ according to the correction before it.
\<close>

theorem last_correction_counterexample:
  "v_box_id first_review = v_box_id second_review \<and>
   map_option (map confidence)
     (stored_boxes (snd (validate_detections accept_all store_s1 ''s1''
                           [first_review, second_review])) ''s1'' ''a'')
     = Some [1 / 2, 7 / 8, 7 / 8] \<and>
   map_option (map confidence)
     (stored_boxes (snd (validate_detections accept_all store_s1 ''s1'' [second_review]))
        ''s1'' ''a'')
     = Some [7 / 8, 7 / 8, 7 / 8] \<and>
   map_option (map box_notes)
     (stored_boxes (snd (validate_detections accept_all store_s1 ''s1''
                           [first_review, second_review])) ''s1'' ''a'')
     = Some [Some ''checked'', None, None] \<and>
   map_option (map box_notes)
     (stored_boxes (snd (validate_detections accept_all store_s1 ''s1'' [second_review]))
        ''s1'' ''a'')
     = Some [None, None, None]"
  by code_simp

text \<open>
  Claim C7 on the stored example session: the correction of \<open>a_box_0\<close> sets \<open>is_verified\<close>,
  and \<open>verified_at\<close> of the box is still unset afterwards.
\<close>

theorem verification_leaves_timestamp_unset:
  "map_option (map is_verified)
     (stored_boxes (snd (validate_detections accept_all store_s1 ''s1''
                           [correction ''a_box_0'' True None None])) ''s1'' ''a'')
     = Some [True, False, False] \<and>
   map_option (map verified_at)
     (stored_boxes (snd (validate_detections accept_all store_s1 ''s1''
                           [correction ''a_box_0'' True None None])) ''s1'' ''a'')
     = Some [None, None, None]"
  by code_simp


subsection \<open>Manual boxes and deletion\<close>

lemma add_to_images_none:
  "\<forall>x\<in>set imgs. image_id x \<noteq> iid \<Longrightarrow> add_to_images iid box imgs = None"
  by (induction imgs) simp_all

lemma add_to_images_first:
  "\<forall>x\<in>set ipre. image_id x \<noteq> iid \<Longrightarrow> image_id img = iid \<Longrightarrow>
   add_to_images iid box (ipre @ img # ipost) =
     Some (ipre @ img\<lparr> boxes := boxes img
                       @ [manual_box (format_box_id iid (int (length (boxes img)))) box] \<rparr> # ipost,
           \<lparr> added_box_id = format_box_id iid (int (length (boxes img))),
             added_box = manual_box (format_box_id iid (int (length (boxes img)))) box,
             add_message = ''Manual box added successfully'' \<rparr>)"
  by (induction ipre) (simp_all add: Let_def)

text \<open>
  \<open>add_manual_box\<close> on a session without the image: the exception raised for the missing
  image is caught by the handler of the same function and answered with status 500; the
  store is unchanged.
\<close>

lemma add_manual_box_unknown_image:
  assumes "vsid sid0 = Inr sid" "st sid = Some sd" "\<forall>x\<in>set (images sd). image_id x \<noteq> iid"
  shows "add_manual_box vsid st sid0 iid box =
        (Inl (HTTPException 500 ''Failed to add manual box: '' (Some (ImageNotFound iid))), st)"
proof -
  have "add_to_images iid box (images sd) = None"
    by (rule add_to_images_none [OF assms(3)])
  then show ?thesis using assms(1,2) by (simp add: add_manual_box_def)
qed

text \<open>
  \<open>add_manual_box\<close> on a session with the image: the first image with the identifier
  receives one box at the end, the given box with the identifier \<open>image_id_box_n\<close> for the
  box count \<open>n\<close> of that image and with \<open>is_manual\<close>, \<open>is_verified\<close> and \<open>is_correct\<close> set; the
  identifier is returned and nothing else in the stored session changes.
\<close>

lemma add_manual_box_appends:
  assumes "vsid sid0 = Inr sid" "st sid = Some sd" "images sd = ipre @ img # ipost"
    "\<forall>x\<in>set ipre. image_id x \<noteq> iid" "image_id img = iid"
  shows "add_manual_box vsid st sid0 iid box =
        (Inr \<lparr> added_box_id = iid @ ''_box_'' @ py_str (int (length (boxes img))),
               added_box = box\<lparr> box_id := Some (iid @ ''_box_'' @ py_str (int (length (boxes img)))),
                                is_manual := True, is_verified := True, is_correct := True \<rparr>,
               add_message = ''Manual box added successfully'' \<rparr>,
         st(sid \<mapsto> sd\<lparr> images := ipre @
              img\<lparr> boxes := boxes img @
                [box\<lparr> box_id := Some (iid @ ''_box_'' @ py_str (int (length (boxes img)))),
                      is_manual := True, is_verified := True, is_correct := True \<rparr>] \<rparr>
              # ipost \<rparr>))"
proof -
  have "add_to_images iid box (images sd) =
     Some (ipre @ img\<lparr> boxes := boxes img
                       @ [manual_box (format_box_id iid (int (length (boxes img)))) box] \<rparr> # ipost,
           \<lparr> added_box_id = format_box_id iid (int (length (boxes img))),
             added_box = manual_box (format_box_id iid (int (length (boxes img)))) box,
             add_message = ''Manual box added successfully'' \<rparr>)"
    unfolding assms(3) by (rule add_to_images_first [OF assms(4) assms(5)])
  then show ?thesis
    using assms(1,2) by (simp add: add_manual_box_def manual_box_def format_box_id_def)
qed

text \<open>
  Claim C8 on the stored example session. For the image \<open>zz\<close>, which the session does not
  have, \<open>add_manual_box\<close> raises the image-not-found exception with status 404 inside its own
  \<open>try\<close>, and the caller receives status 500 with the message of a failed addition. For the
  image \<open>a\<close> with three boxes the box \<open>a_box_3\<close> is appended as the claim says.
\<close>

theorem add_manual_box_not_found_becomes_500:
  "fst (add_manual_box accept_all store_s1 ''s1'' ''zz'' (detected_box ''new'')) =
     Inl (HTTPException 500 ''Failed to add manual box: ''
            (Some (HTTPException 404 ''Image zz not found in session'' None)))
   \<and> map_option (map box_id)
       (stored_boxes (snd (add_manual_box accept_all store_s1 ''s1'' ''zz'' (detected_box ''new'')))
          ''s1'' ''a'') = Some [Some ''a_box_0'', Some ''a_box_1'', Some ''a_box_2'']
   \<and> fst (add_manual_box accept_all store_s1 ''s1'' ''a'' (detected_box ''new'')) =
       Inr \<lparr> added_box_id = ''a_box_3'', added_box = example_box ''a_box_3'' True True True,
             add_message = ''Manual box added successfully'' \<rparr>
   \<and> map_option (map box_id)
       (stored_boxes (snd (add_manual_box accept_all store_s1 ''s1'' ''a'' (detected_box ''new'')))
          ''s1'' ''a'') = Some [Some ''a_box_0'', Some ''a_box_1'', Some ''a_box_2'', Some ''a_box_3'']"
  by code_simp

lemma delete_in_images_none:
  "\<forall>x\<in>set imgs. image_id x \<noteq> iid \<Longrightarrow> delete_in_images iid bid imgs = NoImage"
  by (induction imgs) simp_all

lemma delete_in_images_first:
  "\<forall>x\<in>set ipre. image_id x \<noteq> iid \<Longrightarrow> image_id img = iid \<Longrightarrow>
   delete_in_images iid bid (ipre @ img # ipost) =
     (if length (filter (\<lambda>box. box_id box \<noteq> Some bid) (boxes img)) < length (boxes img)
      then Deleted (ipre @ img\<lparr> boxes := filter (\<lambda>box. box_id box \<noteq> Some bid) (boxes img) \<rparr> # ipost)
             (int (length (filter (\<lambda>box. box_id box \<noteq> Some bid) (boxes img))))
      else NoBox)"
  by (induction ipre) (simp_all add: Let_def)

lemma kept_shorter:
  "(length (filter (\<lambda>box. box_id box \<noteq> Some bid) bs) < length bs) =
   (\<exists>b\<in>set bs. box_id b = Some bid)"
  by (induction bs) (auto simp add: less_Suc_eq_le)

lemma kept_count:
  "int (length (filter (\<lambda>box. box_id box \<noteq> Some bid) bs)) =
   int (length bs) - count_if (\<lambda>b. box_id b = Some bid) bs"
  using sum_length_filter_compl [of "\<lambda>b. box_id b = Some bid" bs]
  by (simp add: count_if_def)

text \<open>
  \<open>delete_box\<close> in general. On a session without the image, and on an image without a box
  of the identifier, the exception raised with status 404 is answered with status 500 and
  the store is unchanged. Otherwise every box of the first image with the identifier that
  carries the box identifier is removed.
\<close>

lemma delete_box_unknown_image:
  assumes "vsid sid0 = Inr sid" "st sid = Some sd" "\<forall>x\<in>set (images sd). image_id x \<noteq> iid"
  shows "delete_box vsid st sid0 iid bid =
        (Inl (HTTPException 500 ''Failed to delete box: '' (Some (ImageNotFound iid))), st)"
proof -
  have "delete_in_images iid bid (images sd) = NoImage"
    by (rule delete_in_images_none [OF assms(3)])
  then show ?thesis using assms(1,2) by (simp add: delete_box_def)
qed

lemma delete_box_unknown_box:
  assumes "vsid sid0 = Inr sid" "st sid = Some sd" "images sd = ipre @ img # ipost"
    "\<forall>x\<in>set ipre. image_id x \<noteq> iid" "image_id img = iid"
    "\<forall>b\<in>set (boxes img). box_id b \<noteq> Some bid"
  shows "delete_box vsid st sid0 iid bid =
        (Inl (HTTPException 500 ''Failed to delete box: '' (Some (BoxNotFound bid))), st)"
proof -
  have "\<not> length (filter (\<lambda>box. box_id box \<noteq> Some bid) (boxes img)) < length (boxes img)"
    using assms(6) by (simp add: kept_shorter)
  then have "delete_in_images iid bid (images sd) = NoBox"
    unfolding assms(3) by (simp add: delete_in_images_first [OF assms(4) assms(5)])
  then show ?thesis using assms(1,2) by (simp add: delete_box_def)
qed

lemma delete_box_removes_all_matching:
  assumes "vsid sid0 = Inr sid" "st sid = Some sd" "images sd = ipre @ img # ipost"
    "\<forall>x\<in>set ipre. image_id x \<noteq> iid" "image_id img = iid"
    "\<exists>b\<in>set (boxes img). box_id b = Some bid"
  shows "delete_box vsid st sid0 iid bid =
        (Inr \<lparr> delete_message = ''Box deleted successfully'', deleted_box_id = bid,
               remaining_boxes = int (length (boxes img))
                                   - count_if (\<lambda>b. box_id b = Some bid) (boxes img) \<rparr>,
         st(sid \<mapsto> sd\<lparr> images := ipre @
              img\<lparr> boxes := filter (\<lambda>box. box_id box \<noteq> Some bid) (boxes img) \<rparr> # ipost \<rparr>))"
proof -
  have "length (filter (\<lambda>box. box_id box \<noteq> Some bid) (boxes img)) < length (boxes img)"
    using assms(6) by (simp add: kept_shorter)
  then have "delete_in_images iid bid (images sd) =
          Deleted (ipre @ img\<lparr> boxes := filter (\<lambda>box. box_id box \<noteq> Some bid) (boxes img) \<rparr> # ipost)
            (int (length (filter (\<lambda>box. box_id box \<noteq> Some bid) (boxes img))))"
    unfolding assms(3) by (simp add: delete_in_images_first [OF assms(4) assms(5)])
  then show ?thesis using assms(1,2) by (simp add: delete_box_def kept_count)
qed

text \<open>
  Claim C9 on the stored example session. The first delete of \<open>a_box_1\<close> succeeds and leaves
  2 of 3 boxes. The second delete raises the box-not-found exception with status 404 inside
  the \<open>try\<close> of \<open>delete_box\<close>, and the caller receives status 500 with the message of a
  failed deletion; so does a delete on the image \<open>zz\<close>, which the session does not have.
  After \<open>a_box_0\<close> was deleted and a manual box was added, two boxes of image \<open>a\<close> carry
  \<open>a_box_2\<close>, and one delete takes the box count from 3 to 1.
\<close>

theorem delete_box_not_found_becomes_500:
  "fst (delete_box accept_all store_s1 ''s1'' ''a'' ''a_box_1'') =
     Inr \<lparr> delete_message = ''Box deleted successfully'', deleted_box_id = ''a_box_1'',
           remaining_boxes = 2 \<rparr>
   \<and> fst (delete_box accept_all (snd (delete_box accept_all store_s1 ''s1'' ''a'' ''a_box_1''))
            ''s1'' ''a'' ''a_box_1'') =
       Inl (HTTPException 500 ''Failed to delete box: ''
              (Some (HTTPException 404 ''Box a_box_1 not found in image'' None)))
   \<and> fst (delete_box accept_all store_s1 ''s1'' ''zz'' ''a_box_1'') =
       Inl (HTTPException 500 ''Failed to delete box: ''
              (Some (HTTPException 404 ''Image zz not found in session'' None)))
   \<and> map_option (map box_id) (stored_boxes store_after_add ''s1'' ''a'') =
       Some [Some ''a_box_1'', Some ''a_box_2'', Some ''a_box_2'']
   \<and> fst (delete_box accept_all store_after_add ''s1'' ''a'' ''a_box_2'') =
       Inr \<lparr> delete_message = ''Box deleted successfully'', deleted_box_id = ''a_box_2'',
             remaining_boxes = 1 \<rparr>
   \<and> map_option (map box_id)
       (stored_boxes (snd (delete_box accept_all store_after_add ''s1'' ''a'' ''a_box_2''))
          ''s1'' ''a'') = Some [Some ''a_box_1'']"
  by code_simp


end
